theory Spec2Isabelle
  imports Complex_Main "HOL-Library.Log_Nat"
begin

section \<open>The RFQ client script \<^verbatim>\<open>braza-adapter/scripts/create_order.py\<close>\<close>

text \<open>
  The script signs each HTTP request with an HMAC over \<^verbatim>\<open>apiKey:nonce:path\<close>, creates an
  RFQ, polls its quotes and executes the first quote.  The embedding below follows the
  script function by function: \<^verbatim>\<open>create_signature\<close>, \<^verbatim>\<open>make_auth_headers\<close>,
  \<^verbatim>\<open>create_rfq\<close>, \<^verbatim>\<open>poll_quotes\<close> and \<^verbatim>\<open>execute_quote\<close>.  The entry point \<^verbatim>\<open>main\<close>,
  which reads the two keys from the process environment and chains the three calls, is
  not part of it.

  Conventions of the embedding.
  \<^item> A Python \<^verbatim>\<open>str\<close> is modelled by its UTF-8 byte sequence, a \<^typ>\<open>string\<close>.
    Concatenation, \<^verbatim>\<open>startswith\<close>, \<^verbatim>\<open>rstrip("/")\<close> and the ASCII delimiters of a URL
    act on that byte sequence as they act on the text, and \<^verbatim>\<open>encode("utf-8")\<close> is the
    identity on it.
  \<^item> A finite Python \<^verbatim>\<open>float\<close> is modelled by the rational number it denotes, and an
    operation on floats by the exact operation followed by the rounding of IEEE-754
    binary64 arithmetic.
  \<^item> What the script obtains from outside (the two clocks, the HTTP session, the keyed
    hash of the standard library, the host checks of the URL parser) is a field of the
    environment record \<open>env\<close>; the script's own effects (clock readings consumed,
    requests sent, lines printed, sleeps) are recorded in the record \<open>world\<close>, which every
    effectful function takes and returns.
  \<^item> Every exception is a value of the datatype \<open>error\<close>; a function that can raise
    returns \<open>error + 'a\<close>, with \<open>Inl\<close> for the exception.
\<close>

subsection \<open>Strings\<close>

type_synonym bytes = "char list"

definition encode_utf8 :: "string \<Rightarrow> bytes" where
  "encode_utf8 s = s"

definition startswith :: "string \<Rightarrow> string \<Rightarrow> bool" where
  "startswith s p = (take (length p) s = p)"

definition rstrip :: "string \<Rightarrow> string \<Rightarrow> string" where
  "rstrip s cs = rev (dropWhile (\<lambda>c. c \<in> set cs) (rev s))"

text \<open>\<^verbatim>\<open>str.lower\<close>, on the ASCII letters.\<close>

definition lower_char :: "char \<Rightarrow> char" where
  "lower_char c =
     (case map_of (zip ''ABCDEFGHIJKLMNOPQRSTUVWXYZ'' ''abcdefghijklmnopqrstuvwxyz'') c of
        None \<Rightarrow> c
      | Some l \<Rightarrow> l)"

definition lower :: "string \<Rightarrow> string" where
  "lower s = map lower_char s"

text \<open>\<^verbatim>\<open>str(n)\<close> for an integer: its decimal digits, with a minus sign when negative.\<close>

definition digit_char :: "nat \<Rightarrow> char" where
  "digit_char d = ''0123456789'' ! d"

function str_nat :: "nat \<Rightarrow> string" where
  "str_nat n = (if n < 10 then [digit_char n] else str_nat (n div 10) @ [digit_char (n mod 10)])"
  by pat_completeness auto
termination
  by (relation "measure id") auto

definition str_int :: "int \<Rightarrow> string" where
  "str_int i = (if i < 0 then CHR ''-'' # str_nat (nat (- i)) else str_nat (nat i))"

text \<open>\<^verbatim>\<open>int(x)\<close> for a float: truncation towards zero.\<close>

definition py_int :: "rat \<Rightarrow> int" where
  "py_int x = (if 0 \<le> x then \<lfloor>x\<rfloor> else \<lceil>x\<rceil>)"

subsection \<open>Floats\<close>

text \<open>
  Rounding of a rational number to the nearest double (IEEE-754 binary64, 53 significant
  bits), ties to the even significand, as the processor rounds the result of every
  operation on floats.  \<open>exponent x\<close> is the binary exponent of a number \<open>x\<close> other than
  0, the integer \<open>e\<close> with \<open>2 powi e \<le> \<bar>x\<bar>\<close> and \<open>\<bar>x\<bar> < 2 powi (e + 1)\<close>.

  The range of the exponent of a double is left out: a result of \<^verbatim>\<open>2^1024\<close> or more in
  magnitude, which is infinite in double arithmetic, stays finite here, and a result below
  \<^verbatim>\<open>2^-1022\<close> keeps 53 bits.  The two products that the script computes cannot tell.
  \<^verbatim>\<open>int(time.time() * 1000)\<close> is the same for every reading below \<^verbatim>\<open>1.7e305\<close> in magnitude,
  and \<^verbatim>\<open>time.time()\<close> converts a signed 64-bit count of nanoseconds.  \<^verbatim>\<open>time.sleep\<close>
  compares its product with 0 and with \<^verbatim>\<open>-2^63\<close> and \<^verbatim>\<open>2^63\<close> only, and a product with
  \<^verbatim>\<open>1e9\<close> that is below \<^verbatim>\<open>2^-1022\<close> is exact.
\<close>

definition round_half_even :: "rat \<Rightarrow> int" where
  "round_half_even x =
     (let n = \<lfloor>x\<rfloor>; r = x - of_int n
      in if r < 1 / 2 then n else if 1 / 2 < r then n + 1 else if even n then n else n + 1)"

definition exponent :: "rat \<Rightarrow> int" where
  "exponent x =
     (let (p, q) = quotient_of \<bar>x\<bar>; d = bitlen p - bitlen q
      in if 2 powi d \<le> \<bar>x\<bar> then d else d - 1)"

definition round_double :: "rat \<Rightarrow> rat" where
  "round_double x =
     (if x = 0 then 0
      else (let q = 2 powi (exponent x - 52) in of_int (round_half_even (x / q)) * q))"

text \<open>\<^verbatim>\<open>x * y\<close> on two floats.\<close>

definition float_mul :: "rat \<Rightarrow> rat \<Rightarrow> rat" where
  "float_mul x y = round_double (x * y)"

text \<open>
  A number handed to \<^verbatim>\<open>time.sleep\<close>: an \<^verbatim>\<open>int\<close>, or a \<^verbatim>\<open>float\<close>, which is finite (a
  double), infinite or not a number.
\<close>

datatype pynumber =
    PyInt int
  | PyFloat rat
  | PyInf
  | PyNegInf
  | PyNaN

subsection \<open>Base64 (\<^verbatim>\<open>base64.b64encode\<close>)\<close>

definition b64_alphabet :: string where
  "b64_alphabet = ''ABCDEFGHIJKLMNOPQRSTUVWXYZabcdefghijklmnopqrstuvwxyz0123456789+/''"

definition b64_char :: "nat \<Rightarrow> char" where
  "b64_char n = b64_alphabet ! (n mod 64)"

fun b64encode :: "bytes \<Rightarrow> string" where
  "b64encode [] = []"
| "b64encode [a] =
     (let n = (of_char a :: nat)
      in [b64_char (n div 4), b64_char (n mod 4 * 16), CHR ''='', CHR ''=''])"
| "b64encode [a, b] =
     (let n = (of_char a :: nat) * 256 + of_char b
      in [b64_char (n div 1024), b64_char (n div 16), b64_char (n mod 16 * 4), CHR ''=''])"
| "b64encode (a # b # c # rest) =
     (let n = (of_char a :: nat) * 65536 + of_char b * 256 + of_char c
      in [b64_char (n div 262144), b64_char (n div 4096), b64_char (n div 64), b64_char n]
         @ b64encode rest)"

subsection \<open>JSON values, requests, responses, exceptions\<close>

text \<open>
  A parsed JSON document as Python holds it.  \<open>JObj\<close> is a \<^verbatim>\<open>dict\<close> in insertion order
  (its keys are distinct), \<open>JNull\<close> is \<^verbatim>\<open>None\<close>; a number is kept as a rational.
\<close>

datatype json =
    JNull
  | JBool bool
  | JNum rat
  | JStr string
  | JArr "json list"
  | JObj "(string \<times> json) list"

type_synonym headers = "(string \<times> string) list"

text \<open>Python truthiness (\<^verbatim>\<open>if x\<close>, \<^verbatim>\<open>x or y\<close>, \<^verbatim>\<open>not x\<close>).\<close>

fun truthy :: "json \<Rightarrow> bool" where
  "truthy JNull = False"
| "truthy (JBool b) = b"
| "truthy (JNum r) = (r \<noteq> 0)"
| "truthy (JStr s) = (s \<noteq> [])"
| "truthy (JArr xs) = (xs \<noteq> [])"
| "truthy (JObj kvs) = (kvs \<noteq> [])"

definition py_or :: "json \<Rightarrow> json \<Rightarrow> json" where
  "py_or a b = (if truthy a then a else b)"

text \<open>\<^verbatim>\<open>d.get(k)\<close> on a \<^verbatim>\<open>dict\<close>: the value, or \<^verbatim>\<open>None\<close>.\<close>

definition dict_get :: "(string \<times> json) list \<Rightarrow> string \<Rightarrow> json" where
  "dict_get kvs k = (case map_of kvs k of None \<Rightarrow> JNull | Some v \<Rightarrow> v)"

text \<open>
  \<^verbatim>\<open>resp.headers.get(k)\<close>: the headers of a response are a case-insensitive dictionary.
\<close>

definition headers_get :: "headers \<Rightarrow> string \<Rightarrow> json" where
  "headers_get hs k =
     (case map_of (map (\<lambda>(n, v). (lower n, v)) hs) (lower k) of
        None \<Rightarrow> JNull
      | Some v \<Rightarrow> JStr v)"

text \<open>What the script hands to \<^verbatim>\<open>session.post\<close> and \<^verbatim>\<open>session.get\<close>.\<close>

record request =
  req_method :: string
  req_url :: string
  req_json :: "json option"
  req_headers :: headers
  req_timeout :: nat

text \<open>
  What the script reads of a \<^verbatim>\<open>requests.Response\<close>: \<open>json_body\<close> is the value of
  \<^verbatim>\<open>resp.json()\<close>, \<open>None\<close> when it raises \<^verbatim>\<open>ValueError\<close> (the body is not valid JSON);
  \<open>sent_method\<close>, \<open>sent_headers\<close> and \<open>sent_body\<close> are \<^verbatim>\<open>resp.request.method\<close>,
  \<^verbatim>\<open>resp.request.headers\<close> and \<^verbatim>\<open>resp.request.body\<close>, the request as the library
  prepared it.
\<close>

record response =
  status_code :: int
  resp_headers :: headers
  body_text :: string
  json_body :: "json option"
  sent_method :: string
  sent_headers :: headers
  sent_body :: "bytes option"

text \<open>
  A value handed to \<^verbatim>\<open>print\<close> or interpolated in an f-string.  The rendering of a value
  that is not a string (\<^verbatim>\<open>str\<close> of a \<^verbatim>\<open>dict\<close>, of a number) is not modelled: an
  f-string with such a value is \<open>PFmt\<close> of its pieces, in order.
\<close>

datatype pyval =
    PNone
  | PStr string
  | PInt int
  | PBytes bytes
  | PJson json
  | PDict headers
  | PFmt "pyval list"

datatype error =
    HTTPError response
  | TransportError
  | ValueError
  | AttributeError
  | TypeError
  | KeyError
  | IndexError
  | RuntimeError pyval
  | TimeoutError
  | OverflowError
  | OSError

text \<open>
  \<^verbatim>\<open>Response.raise_for_status\<close> and \<^verbatim>\<open>Response.ok\<close> of the \<^verbatim>\<open>requests\<close> library: the
  error statuses are 400 to 599, and the \<^verbatim>\<open>HTTPError\<close> carries the response.
\<close>

definition ok :: "response \<Rightarrow> bool" where
  "ok resp = (\<not> (400 \<le> status_code resp \<and> status_code resp < 600))"

definition raise_for_status :: "response \<Rightarrow> error + unit" where
  "raise_for_status resp = (if ok resp then Inr () else Inl (HTTPError resp))"

subsection \<open>Environment and effects\<close>

record env =
  hmac_sha256 :: "bytes \<Rightarrow> bytes \<Rightarrow> bytes"
  time_time :: "nat \<Rightarrow> rat"
  time_monotonic :: "nat \<Rightarrow> int"
  session_send :: "nat \<Rightarrow> request \<Rightarrow> error + response"
  bracketed_host_ok :: "string \<Rightarrow> bool"
  nfkc_ok :: "string \<Rightarrow> bool"

text \<open>
  \<^item> \<open>hmac_sha256 e key msg\<close> is \<^verbatim>\<open>hmac.new(key, msg, hashlib.sha256).digest()\<close>;
  \<^item> \<open>time_time e k\<close> is the value of the \<open>k\<close>-th call of \<^verbatim>\<open>time.time()\<close>: a double, in
    seconds since the epoch (of at most \<^verbatim>\<open>2^63\<close> nanoseconds in magnitude);
  \<^item> \<open>time_monotonic e k\<close> is the reading of the monotonic clock that the \<open>k\<close>-th sleep of
    the run takes, in nanoseconds (a signed 64-bit count, from 0 on);
  \<^item> \<open>session_send e k r\<close> is the outcome of the \<open>k\<close>-th request of the session, when
    that request is \<open>r\<close>: a response, or the exception the transport raises;
  \<^item> \<open>bracketed_host_ok\<close> and \<open>nfkc_ok\<close> are the two host checks of
    \<^verbatim>\<open>urllib.parse.urlsplit\<close> that it delegates to \<^verbatim>\<open>ipaddress\<close> and \<^verbatim>\<open>unicodedata\<close>.
\<close>

record world =
  ticks :: nat
  sent :: "request list"
  stdout :: "pyval list list"
  slept :: "pynumber list"

definition print :: "pyval list \<Rightarrow> world \<Rightarrow> world" where
  "print args w = w\<lparr>stdout := stdout w @ [args]\<rparr>"

text \<open>
  \<^verbatim>\<open>time.sleep(secs)\<close> (CPython 3.11 on Linux).  The length is first converted to a count
  of nanoseconds in a signed 64-bit integer: an \<^verbatim>\<open>int\<close> is multiplied by \<^verbatim>\<open>10^9\<close>; a
  \<^verbatim>\<open>float\<close> is multiplied by \<^verbatim>\<open>1e9\<close> in double arithmetic and rounded away from zero to an
  integer.  A NaN raises \<^verbatim>\<open>ValueError\<close>, and a count outside the 64 bits (so an infinite
  length) \<^verbatim>\<open>OverflowError\<close>.  A negative count raises \<^verbatim>\<open>ValueError\<close>.  The call then
  sleeps until its deadline, the reading of the monotonic clock plus the count, added in
  64 bits with wrap-around: with a deadline that has wrapped to a negative number the
  system call fails, which raises \<^verbatim>\<open>OSError\<close>.  Signals are not part of the model.
\<close>

definition round_away :: "rat \<Rightarrow> int" where
  "round_away x = (if 0 \<le> x then \<lceil>x\<rceil> else \<lfloor>x\<rfloor>)"

fun sleep_timeout :: "pynumber \<Rightarrow> error + int" where
  "sleep_timeout (PyInt n) =
     (if n < - 9223372036 \<or> 9223372036 < n then Inl OverflowError else Inr (n * 1000000000))"
| "sleep_timeout (PyFloat s) =
     (let d = round_away (float_mul s 1000000000)
      in if - (2 ^ 63) \<le> d \<and> d < 2 ^ 63 then Inr d else Inl OverflowError)"
| "sleep_timeout PyInf = Inl OverflowError"
| "sleep_timeout PyNegInf = Inl OverflowError"
| "sleep_timeout PyNaN = Inl ValueError"

definition wrap64 :: "int \<Rightarrow> int" where
  "wrap64 i = (i + 2 ^ 63) mod 2 ^ 64 - 2 ^ 63"

definition sleep :: "env \<Rightarrow> pynumber \<Rightarrow> world \<Rightarrow> error + world" where
  "sleep e secs w =
     (case sleep_timeout secs of
        Inl err \<Rightarrow> Inl err
      | Inr timeout \<Rightarrow>
          if timeout < 0 then Inl ValueError
          else if wrap64 (time_monotonic e (length (slept w)) + timeout) < 0 then Inl OSError
          else Inr (w\<lparr>slept := slept w @ [secs]\<rparr>))"

definition session_request :: "env \<Rightarrow> request \<Rightarrow> world \<Rightarrow> (error + response) \<times> world" where
  "session_request e r w = (session_send e (length (sent w)) r, w\<lparr>sent := sent w @ [r]\<rparr>)"

subsection \<open>\<^verbatim>\<open>urllib.parse.urlparse\<close>\<close>

text \<open>
  The parser of the standard library (CPython 3.11), for a \<^verbatim>\<open>str\<close> argument and the default
  \<^verbatim>\<open>scheme=''\<close>, \<^verbatim>\<open>allow_fragments=True\<close>.  It raises \<^verbatim>\<open>ValueError\<close> on a host with
  unbalanced brackets, and where one of its two delegated host checks fails.
  \<^verbatim>\<open>urlparse\<close> calls \<^verbatim>\<open>urlsplit\<close>, which cuts the URL into scheme, host, path, query and
  fragment, and then moves the parameters of the last path segment (the text after its
  first \<^verbatim>\<open>;\<close>) out of the path.
\<close>

record split_result =
  sr_scheme :: string
  sr_netloc :: string
  sr_path :: string
  sr_query :: string
  sr_fragment :: string

record parse_result =
  url_scheme :: string
  url_netloc :: string
  url_path :: string
  url_params :: string
  url_query :: string
  url_fragment :: string

definition scheme_chars :: string where
  "scheme_chars = ''abcdefghijklmnopqrstuvwxyzABCDEFGHIJKLMNOPQRSTUVWXYZ0123456789+-.''"

definition uses_params :: "string list" where
  "uses_params = ['''', ''ftp'', ''hdl'', ''prospero'', ''http'', ''imap'', ''https'', ''shttp'',
     ''rtsp'', ''rtspu'', ''sip'', ''sips'', ''mms'', ''sftp'', ''tel'']"

definition is_ascii_alpha :: "char \<Rightarrow> bool" where
  "is_ascii_alpha c = (let n = (of_char c :: nat) in (65 \<le> n \<and> n \<le> 90) \<or> (97 \<le> n \<and> n \<le> 122))"

definition is_ascii :: "string \<Rightarrow> bool" where
  "is_ascii s = list_all (\<lambda>c. (of_char c :: nat) < 128) s"

text \<open>\<^verbatim>\<open>s.split(c, 1)\<close> and \<^verbatim>\<open>s.partition(c)\<close>: the text before and after the first \<open>c\<close>.\<close>

definition split_first :: "char \<Rightarrow> string \<Rightarrow> string \<times> string" where
  "split_first c s = (takeWhile (\<lambda>x. x \<noteq> c) s, drop 1 (dropWhile (\<lambda>x. x \<noteq> c) s))"

definition split_scheme :: "string \<Rightarrow> string \<times> string" where
  "split_scheme u =
     (let pre = takeWhile (\<lambda>x. x \<noteq> CHR '':'') u
      in if CHR '':'' \<in> set u \<and> pre \<noteq> [] \<and> is_ascii_alpha (hd u)
            \<and> list_all (\<lambda>c. c \<in> set scheme_chars) pre
         then (lower pre, drop (Suc (length pre)) u)
         else ('''', u))"

definition splitnetloc :: "string \<Rightarrow> string \<times> string" where
  "splitnetloc u =
     (if take 2 u = ''//''
      then (takeWhile (\<lambda>x. x \<notin> set ''/?#'') (drop 2 u), dropWhile (\<lambda>x. x \<notin> set ''/?#'') (drop 2 u))
      else ('''', u))"

definition netloc_ok :: "env \<Rightarrow> string \<Rightarrow> bool" where
  "netloc_ok e netloc =
     (if CHR ''['' \<in> set netloc \<and> CHR '']'' \<in> set netloc
      then bracketed_host_ok e (fst (split_first CHR '']'' (snd (split_first CHR ''['' netloc))))
           \<and> (is_ascii netloc \<or> nfkc_ok e netloc)
      else CHR ''['' \<notin> set netloc \<and> CHR '']'' \<notin> set netloc
           \<and> (is_ascii netloc \<or> nfkc_ok e netloc))"

definition splitparams :: "string \<Rightarrow> string \<times> string" where
  "splitparams u =
     (if CHR ''/'' \<in> set u
      then (let seg = rev (takeWhile (\<lambda>x. x \<noteq> CHR ''/'') (rev u));
                front = take (length u - length seg) u
            in if CHR '';'' \<in> set seg
               then (front @ fst (split_first CHR '';'' seg), snd (split_first CHR '';'' seg))
               else (u, ''''))
      else split_first CHR '';'' u)"

definition urlsplit :: "env \<Rightarrow> string \<Rightarrow> error + split_result" where
  "urlsplit e url =
     (let u0 = dropWhile (\<lambda>c. (of_char c :: nat) \<le> 32) url;
          u1 = filter (\<lambda>c. (of_char c :: nat) \<notin> {9, 10, 13}) u0;
          (sch, u2) = split_scheme u1;
          (netloc, u3) = splitnetloc u2;
          (u4, fragment) = (if CHR ''#'' \<in> set u3 then split_first CHR ''#'' u3 else (u3, ''''));
          (u5, query) = (if CHR ''?'' \<in> set u4 then split_first CHR ''?'' u4 else (u4, ''''))
      in if netloc_ok e netloc
         then Inr \<lparr>sr_scheme = sch, sr_netloc = netloc, sr_path = u5,
                   sr_query = query, sr_fragment = fragment\<rparr>
         else Inl ValueError)"

definition urlparse :: "env \<Rightarrow> string \<Rightarrow> error + parse_result" where
  "urlparse e url =
     (case urlsplit e url of
        Inl err \<Rightarrow> Inl err
      | Inr s \<Rightarrow>
          (let (u6, params) = (if sr_scheme s \<in> set uses_params \<and> CHR '';'' \<in> set (sr_path s)
                               then splitparams (sr_path s) else (sr_path s, ''''))
           in Inr \<lparr>url_scheme = sr_scheme s, url_netloc = sr_netloc s, url_path = u6,
                     url_params = params, url_query = sr_query s,
                     url_fragment = sr_fragment s\<rparr>))"

subsection \<open>The script\<close>

definition BASE_URL :: string where
  "BASE_URL = ''https://api-staging.checker.finance''"

definition RFQ_PATH :: string where
  "RFQ_PATH = ''/api/v1/request-for-quotes''"

definition create_signature :: "env \<Rightarrow> string \<Rightarrow> string \<Rightarrow> string \<Rightarrow> string \<Rightarrow> string" where
  "create_signature e nonce path api_key secret_key =
     (let message = concat [api_key, '':'', nonce, '':'', path];
          digest = hmac_sha256 e (encode_utf8 secret_key) (encode_utf8 message)
      in b64encode digest)"

definition make_auth_headers ::
  "env \<Rightarrow> string \<Rightarrow> string \<Rightarrow> string \<Rightarrow> world \<Rightarrow> headers \<times> world" where
  "make_auth_headers e path api_key secret_key w =
     (let nonce = str_int (py_int (float_mul (time_time e (ticks w)) 1000));
          signature = create_signature e nonce path api_key secret_key
      in ([(''x-api-key'', api_key),
           (''x-nonce'', nonce),
           (''x-signature'', signature),
           (''Content-Type'', ''application/json''),
           (''Accept'', ''application/json'')],
          w\<lparr>ticks := Suc (ticks w)\<rparr>))"

definition rfq_payload :: json where
  "rfq_payload = JObj [(''instrumentPair'', JStr ''usdc/brl''),
                       (''quantity'', JNum 100),
                       (''side'', JStr ''buy''),
                       (''amountDenomination'', JStr ''usdc''),
                       (''providers'', JArr [JStr ''braza''])]"

definition create_rfq :: "env \<Rightarrow> string \<Rightarrow> string \<Rightarrow> world \<Rightarrow> (error + string) \<times> world" where
  "create_rfq e api_key secret_key w =
     (let url = BASE_URL @ RFQ_PATH;
          (hdrs, w1) = make_auth_headers e RFQ_PATH api_key secret_key w;
          (r, w2) = session_request e
                      \<lparr>req_method = ''POST'', req_url = url, req_json = Some rfq_payload,
                       req_headers = hdrs, req_timeout = 10\<rparr> w1
      in case r of
           Inl err \<Rightarrow> (Inl err, w2)
         | Inr resp \<Rightarrow>
             (case raise_for_status resp of
                Inl err \<Rightarrow> (Inl err, w2)
              | Inr _ \<Rightarrow>
                  (let data = (case json_body resp of None \<Rightarrow> JObj [] | Some d \<Rightarrow> d)
                   in case data of
                        JObj kvs \<Rightarrow>
                          (let rfq_url = py_or (py_or (py_or (dict_get kvs ''rfqUrl'')
                                                             (dict_get kvs ''rfq_url''))
                                                      (dict_get kvs ''url''))
                                               (headers_get (resp_headers resp) ''Location'')
                           in if \<not> truthy rfq_url
                              then (Inl (RuntimeError (PFmt
                                      [PStr ''Could not determine RFQ URL from response: status='',
                                       PInt (status_code resp),
                                       PStr '', body='', PJson data,
                                       PStr '', headers='', PDict (resp_headers resp)])), w2)
                              else (case rfq_url of
                                      JStr s \<Rightarrow>
                                        (let s' = (if startswith s ''http://''
                                                   then ''https://'' @ drop (length ''http://'') s
                                                   else s)
                                         in (Inr s', print [PStr (''Created RFQ: '' @ s')] w2))
                                    | _ \<Rightarrow> (Inl AttributeError, w2)))
                      | _ \<Rightarrow> (Inl AttributeError, w2))))"

text \<open>
  \<^verbatim>\<open>quotes[0]\<close>: the first element of a list, the first character of a string (the
  bytes of its first code point); a \<^verbatim>\<open>dict\<close> parsed from JSON has no key \<^verbatim>\<open>0\<close>, and a
  number, a boolean and \<^verbatim>\<open>None\<close> are not subscriptable.
\<close>

fun getitem0 :: "json \<Rightarrow> error + json" where
  "getitem0 (JArr []) = Inl IndexError"
| "getitem0 (JArr (x # xs)) = Inr x"
| "getitem0 (JStr []) = Inl IndexError"
| "getitem0 (JStr (c # cs)) =
     Inr (JStr (c # takeWhile (\<lambda>x. (128::nat) \<le> of_char x \<and> of_char x < (192::nat)) cs))"
| "getitem0 (JObj kvs) = Inl KeyError"
| "getitem0 _ = Inl TypeError"

text \<open>
  The \<^verbatim>\<open>for attempt in range(1, max_attempts + 1)\<close> loop of \<^verbatim>\<open>poll_quotes\<close>, by
  recursion on the attempts still to make; falling out of the loop raises
  \<^verbatim>\<open>TimeoutError\<close>.
\<close>

fun poll_loop ::
  "env \<Rightarrow> string \<Rightarrow> string \<Rightarrow> string \<Rightarrow> string \<Rightarrow> int \<Rightarrow> pynumber \<Rightarrow> int list \<Rightarrow> world
     \<Rightarrow> (error + json) \<times> world" where
  "poll_loop e quotes_url quotes_path api_key secret_key max_attempts delay_seconds [] w =
     (Inl TimeoutError, w)"
| "poll_loop e quotes_url quotes_path api_key secret_key max_attempts delay_seconds (attempt # rest) w =
     (let (hdrs, w1) = make_auth_headers e quotes_path api_key secret_key w;
          (r, w2) = session_request e
                      \<lparr>req_method = ''GET'', req_url = quotes_url, req_json = None,
                       req_headers = hdrs, req_timeout = 10\<rparr> w1
      in case r of
           Inl err \<Rightarrow> (Inl err, w2)
         | Inr resp \<Rightarrow>
             (case raise_for_status resp of
                Inl err \<Rightarrow> (Inl err, w2)
              | Inr _ \<Rightarrow>
                  (case json_body resp of
                     None \<Rightarrow> (Inl ValueError, w2)
                   | Some quotes \<Rightarrow>
                       if truthy quotes
                       then (case getitem0 quotes of
                               Inl err \<Rightarrow> (Inl err, w2)
                             | Inr quote \<Rightarrow>
                                 (Inr quote,
                                  print [PFmt [PStr ''Received quote on attempt '', PInt attempt,
                                               PStr '': '', PJson quote]] w2))
                       else (let w3 = print [PFmt [PStr ''No quotes yet (attempt '', PInt attempt,
                                                   PStr ''/'', PInt max_attempts,
                                                   PStr ''), sleeping...'']] w2
                             in case sleep e delay_seconds w3 of
                                  Inl err \<Rightarrow> (Inl err, w3)
                                | Inr w4 \<Rightarrow>
                                    poll_loop e quotes_url quotes_path api_key secret_key
                                      max_attempts delay_seconds rest w4))))"

definition poll_quotes ::
  "env \<Rightarrow> string \<Rightarrow> string \<Rightarrow> string \<Rightarrow> int \<Rightarrow> pynumber \<Rightarrow> world
     \<Rightarrow> (error + json) \<times> world" where
  "poll_quotes e rfq_url api_key secret_key max_attempts delay_seconds w =
     (case urlparse e rfq_url of
        Inl err \<Rightarrow> (Inl err, w)
      | Inr parsed \<Rightarrow>
          (let quotes_path = rstrip (url_path parsed) ''/'' @ ''/quotes'';
               quotes_url = url_scheme parsed @ ''://'' @ url_netloc parsed @ quotes_path
           in poll_loop e quotes_url quotes_path api_key secret_key max_attempts delay_seconds
                [1..max_attempts] w))"

text \<open>
  The headers of the prepared request that \<^verbatim>\<open>execute_quote\<close> prints: those whose
  lower-cased name starts with \<^verbatim>\<open>x-\<close> or is \<^verbatim>\<open>content-type\<close> or \<^verbatim>\<open>accept\<close>.
\<close>

definition shown_headers :: "headers \<Rightarrow> headers" where
  "shown_headers hs =
     filter (\<lambda>(k, v). startswith (lower k) ''x-'' \<or> lower k \<in> set [''content-type'', ''accept'']) hs"

definition execute_quote ::
  "env \<Rightarrow> string \<Rightarrow> string \<Rightarrow> string \<Rightarrow> string \<Rightarrow> world \<Rightarrow> (error + string) \<times> world" where
  "execute_quote e rfq_url quote_id api_key secret_key w =
     (case urlparse e rfq_url of
        Inl err \<Rightarrow> (Inl err, w)
      | Inr parsed \<Rightarrow>
          (let execute_path = rstrip (url_path parsed) ''/'' @ ''/execute'';
               execute_url = url_scheme parsed @ ''://'' @ url_netloc parsed @ execute_path;
               payload = JObj [(''winningQuoteId'', JStr quote_id)];
               w0 = print [PFmt [PStr ''sending payload '', PJson payload, PStr '' to '',
                                 PStr execute_path]] w;
               (hdrs, w1) = make_auth_headers e execute_path api_key secret_key w0;
               (r, w2) = session_request e
                           \<lparr>req_method = ''POST'', req_url = execute_url, req_json = Some payload,
                            req_headers = hdrs, req_timeout = 10\<rparr> w1
           in case r of
                Inl err \<Rightarrow> (Inl err, w2)
              | Inr resp \<Rightarrow>
                  if \<not> ok resp
                  then (let w3 = foldl (\<lambda>v args. print args v) w2
                                   [[PStr ''---- EXECUTE ERROR ----''],
                                    [PStr ''Status code:'', PInt (status_code resp)],
                                    [PStr ''URL:'', PStr execute_url],
                                    [PStr ''Method actually used:'', PStr (sent_method resp)],
                                    [PStr ''Path used for signature:'', PStr execute_path],
                                    [PStr ''Request headers:'', PDict (shown_headers (sent_headers resp))],
                                    [PStr ''Request body:'',
                                     (case sent_body resp of None \<Rightarrow> PNone | Some b \<Rightarrow> PBytes b)],
                                    [PStr ''Response headers:'', PDict (resp_headers resp)],
                                    [PStr ''Response body:'', PStr (body_text resp)],
                                    [PStr ''------------------------'']]
                        in case raise_for_status resp of
                             Inl err \<Rightarrow> (Inl err, w3)
                           | Inr _ \<Rightarrow> (Inr (body_text resp),
                                       print [PStr (''Execution response: '' @ body_text resp)] w3))
                  else (Inr (body_text resp),
                        print [PStr (''Execution response: '' @ body_text resp)] w2)))"

subsection \<open>Concrete environments\<close>

text \<open>
  Environments and responses for running the script on examples: the clock and the answers
  of the server are given call by call; the keyed hash is a fixed 32-byte digest, the
  monotonic clock reads one hour after boot and the host checks of the URL parser accept.
\<close>

definition fresh_world :: world where
  "fresh_world = \<lparr>ticks = 0, sent = [], stdout = [], slept = []\<rparr>"

definition example_env :: "(nat \<Rightarrow> rat) \<Rightarrow> (nat \<Rightarrow> error + response) \<Rightarrow> env" where
  "example_env clock answers =
     \<lparr>hmac_sha256 = (\<lambda>key msg. ''hhhhhhhhhhhhhhhhhhhhhhhhhhhhhhhh''),
      time_time = clock,
      time_monotonic = (\<lambda>k. 3600000000000),
      session_send = (\<lambda>k r. answers k),
      bracketed_host_ok = (\<lambda>h. True),
      nfkc_ok = (\<lambda>h. True)\<rparr>"

definition example_response :: "int \<Rightarrow> headers \<Rightarrow> string \<Rightarrow> json option \<Rightarrow> response" where
  "example_response st hs body js =
     \<lparr>status_code = st, resp_headers = hs, body_text = body, json_body = js,
      sent_method = ''POST'', sent_headers = [], sent_body = None\<rparr>"

text \<open>The server answers the \<open>i\<close>-th request of the session with \<open>resp\<close>.\<close>

definition answers :: "env \<Rightarrow> nat \<Rightarrow> response \<Rightarrow> bool" where
  "answers e i resp = (\<forall>r. session_send e i r = Inr resp)"

definition always :: "response \<Rightarrow> env" where
  "always resp = example_env (\<lambda>k. 0) (\<lambda>k. Inr resp)"

text \<open>
  Two clocks whose readings are doubles, one advancing \<open>1/512\<close> s (about two
  milliseconds) and one \<open>1/8192\<close> s (about an eighth of a millisecond) from one reading to
  the next, and a server that answers the first request with a created RFQ and every later
  one with one quote.
\<close>

definition slow_clock :: "nat \<Rightarrow> rat" where
  "slow_clock k = 1700000000 + of_nat k / 512"

definition fast_clock :: "nat \<Rightarrow> rat" where
  "fast_clock k = 1700000000 + of_nat k / 8192"

definition quoting_server :: "nat \<Rightarrow> error + response" where
  "quoting_server k =
     (if k = 0
      then Inr (example_response 201 [] ''{\"rfqUrl\": \"https://x.test/rfq/123\"}''
                  (Some (JObj [(''rfqUrl'', JStr ''https://x.test/rfq/123'')])))
      else Inr (example_response 200 [] ''[{\"quoteId\": \"q1\"}]''
                  (Some (JArr [JObj [(''quoteId'', JStr ''q1'')]]))))"

text \<open>
  The \<open>i\<close>-th request of the session is answered with a response that passes
  \<^verbatim>\<open>raise_for_status\<close> and whose JSON body is \<open>quotes\<close>.
\<close>

definition quotes_at :: "env \<Rightarrow> nat \<Rightarrow> json \<Rightarrow> bool" where
  "quotes_at e i quotes = (\<exists>resp. answers e i resp \<and> ok resp \<and> json_body resp = Some quotes)"

text \<open>A response with no quotes, and a server whose second answer has one quote.\<close>

definition no_quotes :: response where
  "no_quotes = example_response 200 [] ''[]'' (Some (JArr []))"

definition late_server :: "nat \<Rightarrow> error + response" where
  "late_server k =
     (if k = 0 then Inr no_quotes
      else Inr (example_response 200 [] ''[{\"quoteId\": \"q1\"}]''
                  (Some (JArr [JObj [(''quoteId'', JStr ''q1'')]]))))"

text \<open>
  The request \<open>r\<close> carries a nonce, and as signature the one computed over \<open>path\<close> with
  that nonce and the given keys.
\<close>

definition signed_for :: "env \<Rightarrow> string \<Rightarrow> string \<Rightarrow> string \<Rightarrow> request \<Rightarrow> bool" where
  "signed_for e path api_key secret_key r =
     (case map_of (req_headers r) ''x-nonce'' of
        None \<Rightarrow> False
      | Some nonce \<Rightarrow>
          map_of (req_headers r) ''x-signature''
            = Some (create_signature e nonce path api_key secret_key))"

text \<open>
  The \<open>k\<close>-th sleep of the run accepts the length \<open>secs\<close>: it has a count of nanoseconds,
  which is not negative, and its deadline does not wrap.
\<close>

definition sleep_accepts :: "env \<Rightarrow> pynumber \<Rightarrow> nat \<Rightarrow> bool" where
  "sleep_accepts e secs k =
     (case sleep_timeout secs of
        Inl err \<Rightarrow> False
      | Inr timeout \<Rightarrow> 0 \<le> timeout \<and> 0 \<le> wrap64 (time_monotonic e k + timeout))"

text \<open>
  The last segment of a path, the text after its last \<^verbatim>\<open>/\<close>; and the URLs whose path, as
  \<^verbatim>\<open>urlsplit\<close> cuts it out, has no \<^verbatim>\<open>;\<close> in its last segment, so no path parameters.
\<close>

definition last_segment :: "string \<Rightarrow> string" where
  "last_segment p = rev (takeWhile (\<lambda>x. x \<noteq> CHR ''/'') (rev p))"

definition no_path_params :: "env \<Rightarrow> string \<Rightarrow> bool" where
  "no_path_params e url =
     (case urlsplit e url of
        Inl err \<Rightarrow> True
      | Inr s \<Rightarrow> CHR '';'' \<notin> set (last_segment (sr_path s)))"

section \<open>Properties\<close>

subsection \<open>Strings, decimal rendering, base64\<close>

lemma rstrip_append_slash: "rstrip (p @ ''/'') ''/'' = rstrip p ''/''"
  by (simp add: rstrip_def)

lemma rstrip_keep: "p = [] \<or> last p \<notin> set cs \<Longrightarrow> rstrip p cs = p"
  by (cases p rule: rev_cases) (auto simp: rstrip_def)

lemma derived_path_differs:
  assumes "sfx \<noteq> []" "last sfx \<noteq> CHR ''/''"
  shows "rstrip p ''/'' @ sfx \<noteq> p"
proof
  assume eq: "rstrip p ''/'' @ sfx = p"
  from assms(1) have "last (rstrip p ''/'' @ sfx) = last sfx" by simp
  with eq have lp: "last p = last sfx" by simp
  from eq assms(1) have "p \<noteq> []" by auto
  have "rstrip p ''/'' = p"
    by (rule rstrip_keep) (use lp assms(2) in simp)
  with eq have "p @ sfx = p" by simp
  with assms(1) show False by simp
qed

lemma b64encode_length: "length (b64encode bs) = 4 * ((length bs + 2) div 3)"
proof (induction bs rule: b64encode.induct)
  case (4 a b c rest)
  have "(5 + length rest) div 3 = Suc ((length rest + 2) div 3)" by arith
  with 4 show ?case by (simp add: Let_def)
qed (simp_all add: Let_def)

lemma b64_vectors:
  "b64encode '''' = ''''" "b64encode ''f'' = ''Zg==''" "b64encode ''fo'' = ''Zm8=''"
  "b64encode ''foo'' = ''Zm9v''" "b64encode ''foob'' = ''Zm9vYg==''"
  "b64encode ''fooba'' = ''Zm9vYmE=''" "b64encode ''foobar'' = ''Zm9vYmFy''"
  by (simp_all add: b64_char_def b64_alphabet_def)

lemma str_nat_ne: "str_nat n \<noteq> []"
  by (subst str_nat.simps) simp

lemma digit_char_inj:
  assumes "a < 10" "b < 10" "digit_char a = digit_char b"
  shows "a = b"
proof -
  have "distinct ''0123456789''" by simp
  moreover have "a < length ''0123456789''" "b < length ''0123456789''"
    using assms by simp_all
  ultimately show ?thesis
    using assms(3) unfolding digit_char_def by (simp only: nth_eq_iff_index_eq)
qed

lemma digit_char_no_minus:
  assumes "k < 10"
  shows "digit_char k \<noteq> CHR ''-''"
proof -
  from assms have "digit_char k \<in> set ''0123456789''"
    unfolding digit_char_def by (intro nth_mem) simp
  then show ?thesis by auto
qed

lemma str_nat_inj: "str_nat m = str_nat n \<Longrightarrow> m = n"
proof (induction m arbitrary: n rule: str_nat.induct)
  case (1 m)
  show ?case
  proof (cases "m < 10")
    case True
    then have m: "str_nat m = [digit_char m]" by (subst str_nat.simps) simp
    show ?thesis
    proof (cases "n < 10")
      case True
      then have "str_nat n = [digit_char n]" by (subst str_nat.simps) simp
      with m "1.prems" \<open>m < 10\<close> True show ?thesis by (auto dest: digit_char_inj)
    next
      case False
      then have "str_nat n = str_nat (n div 10) @ [digit_char (n mod 10)]"
        by (subst str_nat.simps) simp
      with m "1.prems" have "str_nat (n div 10) = []" by simp
      with str_nat_ne show ?thesis by blast
    qed
  next
    case False
    then have m: "str_nat m = str_nat (m div 10) @ [digit_char (m mod 10)]"
      by (subst str_nat.simps) simp
    show ?thesis
    proof (cases "n < 10")
      case True
      then have "str_nat n = [digit_char n]" by (subst str_nat.simps) simp
      with m "1.prems" have "str_nat (m div 10) = []" by simp
      with str_nat_ne show ?thesis by blast
    next
      case nf: False
      then have "str_nat n = str_nat (n div 10) @ [digit_char (n mod 10)]"
        by (subst str_nat.simps) simp
      with m "1.prems" have a: "str_nat (m div 10) = str_nat (n div 10)"
        and b: "digit_char (m mod 10) = digit_char (n mod 10)" by simp_all
      from "1.IH" [OF False a] have "m div 10 = n div 10" .
      moreover from b have "m mod 10 = n mod 10"
        using digit_char_inj [of "m mod 10" "n mod 10"] by simp
      ultimately show ?thesis by (metis div_mult_mod_eq)
    qed
  qed
qed

lemma str_nat_no_minus: "CHR ''-'' \<notin> set (str_nat n)"
proof (induction n rule: str_nat.induct)
  case (1 n)
  have d: "digit_char k \<noteq> CHR ''-''" if "k < 10" for k
    using that by (rule digit_char_no_minus)
  show ?case
  proof (cases "n < 10")
    case True
    then show ?thesis using d [of n] by (subst str_nat.simps) auto
  next
    case False
    then show ?thesis using 1 d [of "n mod 10"] by (subst str_nat.simps) auto
  qed
qed

lemma str_int_inj: "str_int i = str_int j \<Longrightarrow> i = j"
proof -
  assume eq: "str_int i = str_int j"
  have hd_nat: "hd (str_nat n) \<noteq> CHR ''-''" for n
    using str_nat_no_minus [of n] str_nat_ne [of n] by (cases "str_nat n") auto
  show ?thesis
  proof (cases "i < 0"; cases "j < 0")
    assume "i < 0" "j < 0"
    with eq have "str_nat (nat (- i)) = str_nat (nat (- j))" by (simp add: str_int_def)
    then have "nat (- i) = nat (- j)" by (rule str_nat_inj)
    with \<open>i < 0\<close> \<open>j < 0\<close> show ?thesis by simp
  next
    assume "i < 0" "\<not> j < 0"
    with eq have "CHR ''-'' # str_nat (nat (- i)) = str_nat (nat j)" by (simp add: str_int_def)
    then have "hd (str_nat (nat j)) = CHR ''-''" by (metis list.sel(1))
    with hd_nat show ?thesis by blast
  next
    assume "\<not> i < 0" "j < 0"
    with eq have "str_nat (nat i) = CHR ''-'' # str_nat (nat (- j))" by (simp add: str_int_def)
    then have "hd (str_nat (nat i)) = CHR ''-''" by (metis list.sel(1))
    with hd_nat show ?thesis by blast
  next
    assume "\<not> i < 0" "\<not> j < 0"
    with eq have "str_nat (nat i) = str_nat (nat j)" by (simp add: str_int_def)
    then have "nat i = nat j" by (rule str_nat_inj)
    with \<open>\<not> i < 0\<close> \<open>\<not> j < 0\<close> show ?thesis by simp
  qed
qed

lemma floor_rat_numeral: "\<lfloor>(numeral a / numeral b :: rat)\<rfloor> = numeral a div numeral b"
  by (metis floor_divide_of_int_eq of_int_numeral)

lemma py_int_mono:
  assumes "x \<le> y"
  shows "py_int x \<le> py_int y"
proof (cases "0 \<le> x")
  case True
  with assms have "0 \<le> y" by simp
  with True assms show ?thesis by (simp add: py_int_def floor_mono)
next
  case False
  then have x: "py_int x = \<lceil>x\<rceil>" "\<lceil>x\<rceil> \<le> 0"
    by (simp_all add: py_int_def ceiling_le_zero)
  show ?thesis
  proof (cases "0 \<le> y")
    case True
    then have y: "py_int y = \<lfloor>y\<rfloor>" "0 \<le> \<lfloor>y\<rfloor>" by (simp_all add: py_int_def)
    from x(2) y(2) have "\<lceil>x\<rceil> \<le> \<lfloor>y\<rfloor>" by (rule order_trans)
    then show ?thesis by (simp only: x(1) y(1))
  next
    case False
    then have "py_int y = \<lceil>y\<rceil>" by (simp add: py_int_def)
    with x(1) assms show ?thesis by (simp add: ceiling_mono)
  qed
qed

subsection \<open>Rounding to a double\<close>

lemma round_half_even_cases:
  "round_half_even x = \<lfloor>x\<rfloor> \<or> round_half_even x = \<lfloor>x\<rfloor> + 1"
  by (simp add: round_half_even_def Let_def)

lemma round_half_even_of_int [simp]: "round_half_even (of_int m) = m"
  by (simp add: round_half_even_def Let_def)

lemma round_half_even_near:
  "\<bar>of_int (round_half_even x) - x\<bar> \<le> 1 / 2"
  unfolding round_half_even_def Let_def
  by (auto simp: abs_if) linarith+

lemma round_half_even_mono:
  assumes "x \<le> y"
  shows "round_half_even x \<le> round_half_even y"
proof (cases "\<lfloor>x\<rfloor> = \<lfloor>y\<rfloor>")
  case True
  with assms show ?thesis
    by (auto simp: round_half_even_def Let_def)
next
  case False
  with assms have "\<lfloor>x\<rfloor> + 1 \<le> \<lfloor>y\<rfloor>"
    using floor_mono [OF assms] by linarith
  moreover have "round_half_even x \<le> \<lfloor>x\<rfloor> + 1"
    using round_half_even_cases [of x] by auto
  moreover have "\<lfloor>y\<rfloor> \<le> round_half_even y"
    using round_half_even_cases [of y] by auto
  ultimately show ?thesis by linarith
qed

lemma round_half_even_eqI:
  assumes "of_int m - 1 / 2 \<le> x" "x \<le> of_int m + 1 / 2" "even m"
  shows "round_half_even x = m"
proof -
  consider "x < of_int m" | "x = of_int m" | "of_int m < x" by linarith
  then show ?thesis
  proof cases
    case 1
    with assms(1) have fl: "\<lfloor>x\<rfloor> = m - 1" by linarith
    have "odd (m - 1)" using assms(3) by simp
    with fl assms(1) show ?thesis
      by (auto simp: round_half_even_def Let_def)
  next
    case 2
    then show ?thesis by simp
  next
    case 3
    with assms(2) have fl: "\<lfloor>x\<rfloor> = m" by linarith
    with assms(2,3) show ?thesis
      by (auto simp: round_half_even_def Let_def)
  qed
qed

lemma round_half_even_minus: "round_half_even (- x) = - round_half_even x"
proof (cases "x \<in> \<int>")
  case True
  then obtain m where "x = of_int m" by (auto elim: Ints_cases)
  then have "- x = of_int (- m)" by simp
  then show ?thesis unfolding \<open>x = of_int m\<close> by (simp only: round_half_even_of_int)
next
  case False
  have ne: "x \<noteq> of_int \<lfloor>x\<rfloor>" using False by (metis Ints_of_int)
  then have lt: "of_int \<lfloor>x\<rfloor> < x" using of_int_floor_le [of x] by linarith
  have fl: "\<lfloor>- x\<rfloor> = - \<lfloor>x\<rfloor> - 1"
    using lt by linarith
  show ?thesis
    unfolding round_half_even_def Let_def fl
    using lt by (auto simp: field_simps)
qed

text \<open>The binary exponent.\<close>

lemma bitlen_powi:
  assumes "0 < p"
  shows "2 powi (bitlen p - 1) \<le> (of_int p :: rat)" "(of_int p :: rat) < 2 powi bitlen p"
proof -
  from bitlen_bounds [OF assms]
  have a: "2 ^ nat (bitlen p - 1) \<le> p" and b: "p < 2 ^ nat (bitlen p)" by simp_all
  have pos: "1 \<le> bitlen p" using assms by (simp add: bitlen_alt_def)
  have "(2::rat) powi (bitlen p - 1) = 2 ^ nat (bitlen p - 1)"
    using pos by (simp add: power_int_def)
  also have "\<dots> = of_int (2 ^ nat (bitlen p - 1))" by simp
  also have "\<dots> \<le> of_int p" using a by (simp only: of_int_le_iff)
  finally show "2 powi (bitlen p - 1) \<le> (of_int p :: rat)" .
  have "(of_int p :: rat) < of_int (2 ^ nat (bitlen p))" using b by (simp only: of_int_less_iff)
  also have "\<dots> = 2 ^ nat (bitlen p)" by simp
  also have "\<dots> = 2 powi bitlen p" using pos by (simp add: power_int_def)
  finally show "(of_int p :: rat) < 2 powi bitlen p" .
qed

lemma exponent_bounds:
  assumes "x \<noteq> 0"
  shows "2 powi exponent x \<le> \<bar>x\<bar>" "\<bar>x\<bar> < 2 powi (exponent x + 1)"
proof -
  obtain p q where pq: "quotient_of \<bar>x\<bar> = (p, q)" by (cases "quotient_of \<bar>x\<bar>")
  then have q: "0 < q" and x: "\<bar>x\<bar> = of_int p / of_int q"
    using quotient_of_denom_pos [OF pq] quotient_of_div [OF pq] by simp_all
  from assms have "0 < \<bar>x\<bar>" by simp
  with x q have p: "0 < p" by (simp add: zero_less_divide_iff)
  define d where "d = bitlen p - bitlen q"
  have qpos: "(0::rat) < of_int q" using q by simp
  have lo: "2 powi (d - 1) \<le> \<bar>x\<bar>"
  proof -
    have "2 powi (d - 1) * of_int q \<le> 2 powi (d - 1) * (2 powi bitlen q :: rat)"
      using bitlen_powi(2) [OF q] by (intro mult_left_mono) simp_all
    also have "\<dots> = 2 powi (bitlen p - 1)"
      by (simp add: d_def power_int_add [symmetric])
    also have "\<dots> \<le> of_int p" by (rule bitlen_powi(1) [OF p])
    finally show ?thesis unfolding x using qpos by (simp add: pos_le_divide_eq)
  qed
  have hi: "\<bar>x\<bar> < 2 powi (d + 1)"
  proof -
    have "(of_int p :: rat) < 2 powi bitlen p" by (rule bitlen_powi(2) [OF p])
    also have "\<dots> = 2 powi (d + 1) * 2 powi (bitlen q - 1)"
      by (simp add: d_def power_int_add [symmetric])
    also have "\<dots> \<le> 2 powi (d + 1) * of_int q"
      using bitlen_powi(1) [OF q] by (intro mult_left_mono) simp_all
    finally show ?thesis unfolding x using qpos by (simp add: pos_divide_less_eq)
  qed
  have e: "exponent x = (if 2 powi d \<le> \<bar>x\<bar> then d else d - 1)"
    by (simp add: exponent_def pq d_def Let_def)
  show "2 powi exponent x \<le> \<bar>x\<bar>" using lo by (simp add: e)
  show "\<bar>x\<bar> < 2 powi (exponent x + 1)" using hi by (simp add: e)
qed

lemma powi_less_imp: "(2::rat) powi a < 2 powi b \<Longrightarrow> a < b"
  by (rule ccontr) (simp add: not_less power_int_increasing leD)

lemma exponent_unique:
  assumes "2 powi e \<le> \<bar>x\<bar>" "\<bar>x\<bar> < 2 powi (e + 1)"
  shows "exponent x = e"
proof -
  have "0 < (2::rat) powi e" by simp
  with assms(1) have "0 < \<bar>x\<bar>" by linarith
  then have nz: "x \<noteq> 0" by simp
  from exponent_bounds [OF nz] assms
  have "(2::rat) powi e < 2 powi (exponent x + 1)" "(2::rat) powi exponent x < 2 powi (e + 1)"
    by linarith+
  then have "e < exponent x + 1" "exponent x < e + 1" by (auto dest: powi_less_imp)
  then show ?thesis by simp
qed

lemma exponent_minus [simp]: "exponent (- x) = exponent x"
  by (simp add: exponent_def)

lemma exponent_mono:
  assumes "0 < x" "x \<le> y"
  shows "exponent x \<le> exponent y"
proof -
  from assms have nz: "x \<noteq> 0" "y \<noteq> 0" by auto
  from exponent_bounds(1) [OF nz(1)] exponent_bounds(2) [OF nz(2)] assms
  have "(2::rat) powi exponent x < 2 powi (exponent y + 1)" by simp
  then have "exponent x < exponent y + 1" by (rule powi_less_imp)
  then show ?thesis by simp
qed

text \<open>Rounding is odd, monotone, and exact on a number with at most 53 significant bits.\<close>

lemma round_double_minus: "round_double (- x) = - round_double x"
  by (simp add: round_double_def Let_def round_half_even_minus)

lemma round_double_zero [simp]: "round_double 0 = 0"
  by (simp add: round_double_def)

lemma round_double_binade:
  assumes "0 < x"
  shows "2 powi exponent x \<le> round_double x" "round_double x \<le> 2 powi (exponent x + 1)"
proof -
  define q :: rat where "q = 2 powi (exponent x - 52)"
  have q: "0 < q" by (simp add: q_def)
  from assms have nz: "x \<noteq> 0" by simp
  have rd: "round_double x = of_int (round_half_even (x / q)) * q"
    using nz by (simp add: round_double_def q_def Let_def)
  have lo: "2 powi exponent x = of_int (2 ^ 52) * q"
    by (simp add: q_def power_int_diff)
  have hi: "2 powi (exponent x + 1) = of_int (2 ^ 53) * q"
    by (simp add: q_def power_int_diff power_int_add)
  from exponent_bounds [OF nz] assms
  have "of_int (2 ^ 52) * q \<le> x" "x \<le> of_int (2 ^ 53) * q"
    unfolding lo [symmetric] hi [symmetric] by simp_all
  then have bd: "of_int (2 ^ 52) \<le> x / q" "x / q \<le> of_int (2 ^ 53)"
    using q by (simp_all add: pos_le_divide_eq pos_divide_le_eq)
  have "round_half_even (of_int (2 ^ 52)) \<le> round_half_even (x / q)"
    "round_half_even (x / q) \<le> round_half_even (of_int (2 ^ 53))"
    by (rule round_half_even_mono [OF bd(1)], rule round_half_even_mono [OF bd(2)])
  then have "2 ^ 52 \<le> round_half_even (x / q)" "round_half_even (x / q) \<le> 2 ^ 53"
    by (simp_all only: round_half_even_of_int)
  then have "(of_int (2 ^ 52) :: rat) \<le> of_int (round_half_even (x / q))"
    "(of_int (round_half_even (x / q)) :: rat) \<le> of_int (2 ^ 53)"
    by (simp_all only: of_int_le_iff)
  then show "2 powi exponent x \<le> round_double x" "round_double x \<le> 2 powi (exponent x + 1)"
    unfolding lo hi rd using q by (simp_all only: mult_le_cancel_right_pos)
qed

lemma round_double_pos: "0 < x \<Longrightarrow> 0 < round_double x"
  using round_double_binade(1) [of x] zero_less_power_int [of "2::rat" "exponent x"]
  by linarith

lemma round_double_mono_pos:
  assumes "0 < x" "x \<le> y"
  shows "round_double x \<le> round_double y"
proof (cases "exponent x = exponent y")
  case True
  define q :: rat where "q = 2 powi (exponent x - 52)"
  have q: "0 < q" by (simp add: q_def)
  from assms have nz: "x \<noteq> 0" "y \<noteq> 0" by auto
  have rd: "round_double x = of_int (round_half_even (x / q)) * q"
    "round_double y = of_int (round_half_even (y / q)) * q"
    using nz by (simp_all add: round_double_def q_def Let_def True)
  from assms(2) q have "x / q \<le> y / q" by (simp add: divide_right_mono)
  then have "round_half_even (x / q) \<le> round_half_even (y / q)" by (rule round_half_even_mono)
  then show ?thesis unfolding rd using q by simp
next
  case False
  with exponent_mono [OF assms] have "exponent x + 1 \<le> exponent y" by simp
  then have "(2::rat) powi (exponent x + 1) \<le> 2 powi exponent y"
    by (intro power_int_increasing) simp_all
  moreover from assms have "0 < y" by simp
  ultimately show ?thesis
    using round_double_binade(2) [OF assms(1)] round_double_binade(1) [OF \<open>0 < y\<close>] by linarith
qed

lemma round_double_mono:
  assumes "x \<le> y"
  shows "round_double x \<le> round_double y"
proof -
  consider "0 < x" | "x \<le> 0" "0 \<le> y" | "y < 0" by linarith
  then show ?thesis
  proof cases
    case 1
    then show ?thesis using assms by (rule round_double_mono_pos)
  next
    case 2
    have "round_double x \<le> 0"
    proof (cases "x = 0")
      case False
      with 2 have "0 < - x" by simp
      from round_double_pos [OF this] show ?thesis by (simp add: round_double_minus)
    qed simp
    moreover have "0 \<le> round_double y"
    proof (cases "y = 0")
      case False
      with 2 have "0 < y" by simp
      from round_double_pos [OF this] show ?thesis by simp
    qed simp
    ultimately show ?thesis by linarith
  next
    case 3
    with assms have "0 < - y" "- y \<le> - x" by simp_all
    from round_double_mono_pos [OF this] show ?thesis by (simp add: round_double_minus)
  qed
qed

lemma round_double_exact:
  assumes "\<bar>m\<bar> < 2 ^ 53"
  shows "round_double (of_int m * 2 powi k) = of_int m * 2 powi k"
proof (cases "m = 0")
  case True
  then show ?thesis by simp
next
  case False
  define b where "b = bitlen \<bar>m\<bar>"
  from False have mpos: "0 < \<bar>m\<bar>" by simp
  from bitlen_powi [OF mpos]
  have lo: "2 powi (b - 1) \<le> (of_int \<bar>m\<bar> :: rat)" and hi: "(of_int \<bar>m\<bar> :: rat) < 2 powi b"
    by (simp_all add: b_def)
  have "(of_int \<bar>m\<bar> :: rat) < of_int (2 ^ 53)" using assms by (simp only: of_int_less_iff)
  with lo have "(2::rat) powi (b - 1) < 2 powi 53" by simp
  then have b53: "b \<le> 53" using powi_less_imp by fastforce
  have b1: "1 \<le> b" using mpos by (simp add: b_def bitlen_alt_def)
  define x :: rat where "x = of_int m * 2 powi k"
  have ax: "\<bar>x\<bar> = of_int \<bar>m\<bar> * 2 powi k" by (simp add: x_def abs_mult)
  have "2 powi (b - 1 + k) \<le> \<bar>x\<bar>" "\<bar>x\<bar> < 2 powi (b - 1 + k + 1)"
    unfolding ax using lo hi by (simp_all add: power_int_add)
  then have e: "exponent x = b - 1 + k" by (rule exponent_unique)
  have nz: "x \<noteq> 0" using False by (simp add: x_def)
  have "x / 2 powi (b - 1 + k - 52) = of_int m * 2 powi (53 - b)"
    by (simp add: x_def power_int_diff power_int_add field_simps)
  also have "\<dots> = of_int (m * 2 ^ nat (53 - b))"
    using b53 by (simp add: power_int_def)
  finally have "round_half_even (x / 2 powi (b - 1 + k - 52)) = m * 2 ^ nat (53 - b)"
    by (simp only: round_half_even_of_int)
  then have "round_double x = of_int (m * 2 ^ nat (53 - b)) * 2 powi (b - 1 + k - 52)"
    using nz by (simp add: round_double_def e Let_def)
  also have "\<dots> = of_int m * 2 powi (53 - b) * 2 powi (b - 1 + k - 52)"
    using b53 by (simp add: power_int_def)
  also have "\<dots> = x"
    by (simp add: x_def power_int_diff power_int_add field_simps)
  finally show ?thesis unfolding x_def .
qed

lemma round_double_of_int:
  "\<bar>m\<bar> < 2 ^ 53 \<Longrightarrow> round_double (of_int m) = of_int m"
  using round_double_exact [of m 0] by simp

text \<open>
  A number that is rounded up to an integer stays rounded up when 1 is added to it; so
  two numbers from 0 on that are at least 1 apart are rounded to doubles with different
  integer parts, below \<^verbatim>\<open>2^52\<close>, where the doubles are less than 1 apart.
\<close>

lemma round_double_up_step:
  assumes "0 < x" "x \<le> of_int N" "round_double x = of_int N" "x + 1 < 2 ^ 52"
  shows "round_double (x + 1) = of_int (N + 1)"
proof -
  define q :: rat where "q = 2 powi (exponent x - 52)"
  define j where "j = 52 - exponent (x + 1)"
  define q' :: rat where "q' = 2 powi (exponent (x + 1) - 52)"
  have q: "0 < q" and q': "0 < q'" by (simp_all add: q_def q'_def)
  from assms(1) have nz: "x \<noteq> 0" "x + 1 \<noteq> 0" by simp_all
  have "exponent x \<le> exponent (x + 1)"
    using assms(1) by (intro exponent_mono) simp_all
  then have qq: "q \<le> q'"
    unfolding q_def q'_def by (intro power_int_increasing) simp_all
  have "2 powi exponent (x + 1) \<le> \<bar>x + 1\<bar>" by (rule exponent_bounds(1) [OF nz(2)])
  with assms(1,4) have "(2::rat) powi exponent (x + 1) < 2 powi 52" by simp
  then have "exponent (x + 1) < 52" by (rule powi_less_imp)
  then have j: "1 \<le> j" by (simp add: j_def)
  have q'j: "q' = 1 / 2 ^ nat j"
    using j by (simp add: q'_def j_def power_int_def field_simps)
  have rd: "round_double x = of_int (round_half_even (x / q)) * q"
    using nz by (simp add: round_double_def q_def Let_def)
  with assms(3) have "of_int (round_half_even (x / q)) = of_int N / q"
    using q by (simp add: field_simps)
  moreover have "\<bar>of_int (round_half_even (x / q)) - x / q\<bar> \<le> 1 / 2"
    by (rule round_half_even_near)
  ultimately have "\<bar>of_int N / q - x / q\<bar> \<le> 1 / 2" by simp
  then have "of_int N / q - x / q \<le> 1 / 2" by linarith
  then have "(of_int N - x) / q \<le> 1 / 2" by (simp only: diff_divide_distrib)
  then have near: "of_int N - x \<le> q / 2" using q by (simp add: field_simps)
  define M where "M = (N + 1) * 2 ^ nat j"
  have M: "(of_int M :: rat) = of_int (N + 1) / q'"
    by (simp add: M_def q'j)
  have evenM: "even M" using j by (simp add: M_def)
  have "(of_int M :: rat) - (x + 1) / q' = (of_int N - x) / q'"
    unfolding M by (simp add: diff_divide_distrib add_divide_distrib)
  moreover have "(of_int N - x) / q' \<le> 1 / 2"
  proof -
    have "of_int N - x \<le> q' / 2" using near qq by linarith
    then show ?thesis using q' by (simp add: field_simps)
  qed
  moreover have "0 \<le> (of_int N - x) / q'" using assms(2) q' by simp
  ultimately have "of_int M - 1 / 2 \<le> (x + 1) / q'" "(x + 1) / q' \<le> of_int M + 1 / 2"
    by linarith+
  from round_half_even_eqI [OF this evenM]
  have "round_double (x + 1) = of_int M * q'"
    using nz by (simp add: round_double_def q'_def Let_def)
  also have "\<dots> = of_int (N + 1)" unfolding M using q' by simp
  finally show ?thesis .
qed

lemma round_double_gap:
  assumes "0 \<le> x" "x + 1 \<le> y" "x + 1 < 2 ^ 52"
  shows "py_int (round_double x) < py_int (round_double y)"
proof -
  define n where "n = \<lfloor>x\<rfloor>"
  have n0: "0 \<le> n" using assms(1) by (simp add: n_def)
  have nx: "of_int n \<le> x" "x < of_int n + 1" by (simp_all add: n_def) linarith
  have "of_int n + 1 < (2::rat) ^ 52" using nx(1) assms(3) by linarith
  then have "(of_int (n + 1) :: rat) < of_int (2 ^ 52)" by simp
  then have n52: "n + 1 < 2 ^ 52" by (simp only: of_int_less_iff)
  have ex0: "round_double (of_int n) = of_int n"
    using n0 n52 by (intro round_double_of_int) simp
  have ex1: "round_double (of_int (n + 1)) = of_int (n + 1)"
    using n0 n52 by (intro round_double_of_int) simp
  have lo: "of_int n \<le> round_double x"
    using round_double_mono [OF nx(1)] by (simp only: ex0)
  have "x \<le> of_int (n + 1)" using nx(2) by simp
  then have "round_double x \<le> round_double (of_int (n + 1))" by (rule round_double_mono)
  then have hi: "round_double x \<le> of_int (n + 1)" by (simp only: ex1)
  have pos: "0 \<le> round_double x" using lo n0 by (simp add: order_trans [of 0 "of_int n"])
  have ypos: "0 \<le> y" using assms by linarith
  have "round_double 0 \<le> round_double y" using ypos by (rule round_double_mono)
  then have ypos': "0 \<le> round_double y" by simp
  have px: "py_int (round_double x) = \<lfloor>round_double x\<rfloor>" using pos by (simp add: py_int_def)
  have py: "py_int (round_double y) = \<lfloor>round_double y\<rfloor>" using ypos' by (simp add: py_int_def)
  show ?thesis
  proof (cases "round_double x = of_int (n + 1)")
    case False
    with hi have "round_double x < of_int (n + 1)" by simp
    then have "\<lfloor>round_double x\<rfloor> < n + 1" by (simp only: floor_less_iff)
    moreover have "of_int (n + 1) \<le> y" using nx(1) assms(2) by simp
    then have "round_double (of_int (n + 1)) \<le> round_double y" by (rule round_double_mono)
    then have "of_int (n + 1) \<le> round_double y" by (simp only: ex1)
    then have "n + 1 \<le> \<lfloor>round_double y\<rfloor>" by (simp only: le_floor_iff)
    ultimately show ?thesis unfolding px py by linarith
  next
    case True
    have xpos: "0 < x"
    proof (rule ccontr)
      assume "\<not> 0 < x"
      with assms(1) have "x = 0" by simp
      with True show False by (simp add: n_def)
    qed
    have "x \<le> of_int (n + 1)" using nx(2) by simp
    from round_double_up_step [OF xpos this True assms(3)]
    have "round_double (x + 1) = of_int (n + 1 + 1)" .
    moreover have "round_double (x + 1) \<le> round_double y" using assms(2) by (rule round_double_mono)
    ultimately have "of_int (n + 1 + 1) \<le> round_double y" by simp
    then have "n + 1 + 1 \<le> \<lfloor>round_double y\<rfloor>" by (simp only: le_floor_iff)
    moreover have "\<lfloor>round_double x\<rfloor> = n + 1" unfolding True by (simp only: floor_of_int)
    ultimately show ?thesis unfolding px py by linarith
  qed
qed

text \<open>The doubles that the examples use.\<close>

lemma round_double_examples:
  "round_double 1700000000000 = 1700000000000"
  "round_double (108800000000125 / 64) = 108800000000125 / 64"
  "round_double (1740800000000125 / 1024) = 1740800000000125 / 1024"
  "round_double 1000000000 = 1000000000"
  "round_double (- 1000000000) = - 1000000000"
  "round_double 10000000000000000000 = 10000000000000000000"
  using round_double_exact [of 1700000000000 0] round_double_exact [of 108800000000125 "- 6"]
    round_double_exact [of 1740800000000125 "- 10"] round_double_exact [of 1000000000 0]
    round_double_exact [of "- 1000000000" 0] round_double_exact [of 19073486328125 19]
  by simp_all

subsection \<open>The signature\<close>

text \<open>
  C2.  For every apiKey, secretKey, path and nonce, the signature is the padded base64
  encoding of the HMAC-SHA-256 digest, keyed by the secret key, of the message
  \<open>apiKey @ '':'' @ nonce @ '':'' @ path\<close>, the fields joined by colons as they are (nothing
  is escaped or URL-encoded); its length is four characters for every three bytes of
  digest, rounded up; and equal inputs give equal signatures.
\<close>

theorem create_signature_b64_hmac:
  "create_signature e nonce path api_key secret_key
     = b64encode (hmac_sha256 e secret_key (api_key @ '':'' @ nonce @ '':'' @ path))
   \<and> length (create_signature e nonce path api_key secret_key)
     = 4 * ((length (hmac_sha256 e secret_key (api_key @ '':'' @ nonce @ '':'' @ path)) + 2) div 3)
   \<and> ((nonce', path', api_key', secret_key') = (nonce, path, api_key, secret_key)
        \<longrightarrow> create_signature e nonce' path' api_key' secret_key'
          = create_signature e nonce path api_key secret_key)"
  by (simp add: create_signature_def encode_utf8_def b64encode_length)

theorem create_signature_b64_hmac_witness:
  "create_signature (example_env (\<lambda>k. 0) (\<lambda>k. Inl TransportError))
      ''1700000000000'' ''/api/v1/request-for-quotes'' ''key'' ''secret''
     = ''aGhoaGhoaGhoaGhoaGhoaGhoaGhoaGhoaGhoaGhoaGg=''
   \<and> length (create_signature (example_env (\<lambda>k. 0) (\<lambda>k. Inl TransportError))
      ''1700000000000'' ''/api/v1/request-for-quotes'' ''key'' ''secret'') = 44"
  using create_signature_b64_hmac
    [of "example_env (\<lambda>k. 0) (\<lambda>k. Inl TransportError)"
        "''1700000000000''" "''/api/v1/request-for-quotes''" "''key''" "''secret''"
        "''1700000000000''" "''/api/v1/request-for-quotes''" "''key''" "''secret''"]
  by (simp add: example_env_def b64_char_def b64_alphabet_def)

text \<open>
  C9.  The signature is not injective in the pair (nonce, path): for every nonce \<open>n\<close> and
  path \<open>p\<close>, the distinct pairs (\<open>n\<close>, \<open>''x:'' @ p\<close>) and (\<open>n @ '':x''\<close>, \<open>p\<close>) give the same
  message under the same keys, hence the same signature, because colons inside the
  fields are not escaped.
\<close>

theorem create_signature_not_injective:
  "create_signature e n (''x:'' @ p) api_key secret_key
     = create_signature e (n @ '':x'') p api_key secret_key
   \<and> (n, ''x:'' @ p) \<noteq> (n @ '':x'', p)"
  by (simp add: create_signature_def)

subsection \<open>Creating the RFQ\<close>

lemma Suc7_numeral: "Suc (Suc (Suc (Suc (Suc (Suc (Suc 0)))))) = 7"
  by simp

text \<open>The outcome of \<open>create_rfq\<close> when the server answers its request with \<open>resp\<close>.\<close>

lemma create_rfq_fst:
  assumes "answers e (length (sent w)) resp"
  shows "fst (create_rfq e api_key secret_key w) =
     (if \<not> ok resp then Inl (HTTPError resp)
      else case (case json_body resp of None \<Rightarrow> JObj [] | Some d \<Rightarrow> d) of
             JObj kvs \<Rightarrow>
               (let rfq_url = py_or (py_or (py_or (dict_get kvs ''rfqUrl'') (dict_get kvs ''rfq_url''))
                                           (dict_get kvs ''url''))
                                    (headers_get (resp_headers resp) ''Location'')
                in if \<not> truthy rfq_url
                   then Inl (RuntimeError (PFmt
                          [PStr ''Could not determine RFQ URL from response: status='',
                           PInt (status_code resp),
                           PStr '', body='', PJson (JObj kvs),
                           PStr '', headers='', PDict (resp_headers resp)]))
                   else (case rfq_url of
                           JStr s \<Rightarrow> Inr (if startswith s ''http://'' then ''https://'' @ drop 7 s else s)
                         | _ \<Rightarrow> Inl AttributeError))
           | _ \<Rightarrow> Inl AttributeError)"
  using assms
  unfolding create_rfq_def make_auth_headers_def session_request_def raise_for_status_def answers_def
  by (simp add: Let_def Suc7_numeral split: json.split option.split)

lemmas rfq_eval = always_def answers_def example_env_def example_response_def fresh_world_def dict_get_def
  headers_get_def py_or_def lower_def lower_char_def startswith_def ok_def

text \<open>
  C4 (as amended).  For every 2xx response to the create request whose body is a JSON
  object, or is not valid JSON (the script then reads it as the empty object), the RFQ URL
  is the first truthy value among the body fields \<open>rfqUrl\<close>, \<open>rfq_url\<close>, \<open>url\<close>, in that
  order, and otherwise the \<open>Location\<close> header: a string so found is returned, with its
  scheme normalised.  If none of the four is truthy, the call fails with the
  \<^verbatim>\<open>RuntimeError\<close> (the spec's MissingRfqUrl) whose message carries the status code, the
  parsed body and the response headers.
\<close>

theorem create_rfq_url_extraction:
  assumes "answers e (length (sent w)) resp"
    and "200 \<le> status_code resp" and "status_code resp < 300"
    and "json_body resp = Some (JObj kvs) \<or> (json_body resp = None \<and> kvs = [])"
  shows "let a = dict_get kvs ''rfqUrl''; b = dict_get kvs ''rfq_url''; c = dict_get kvs ''url'';
             d = headers_get (resp_headers resp) ''Location'';
             chosen = (if truthy a then a else if truthy b then b else if truthy c then c else d)
         in (\<forall>u. chosen = JStr u \<and> u \<noteq> [] \<longrightarrow>
               fst (create_rfq e api_key secret_key w)
                 = Inr (if startswith u ''http://'' then ''https://'' @ drop 7 u else u))
          \<and> (\<not> truthy chosen \<longrightarrow>
               fst (create_rfq e api_key secret_key w)
                 = Inl (RuntimeError (PFmt
                     [PStr ''Could not determine RFQ URL from response: status='',
                      PInt (status_code resp),
                      PStr '', body='', PJson (JObj kvs),
                      PStr '', headers='', PDict (resp_headers resp)])))"
proof -
  from assms(2,3) have okr: "ok resp" by (simp add: ok_def)
  from assms(4) have data: "(case json_body resp of None \<Rightarrow> JObj [] | Some d \<Rightarrow> d) = JObj kvs"
    by auto
  show ?thesis
    unfolding create_rfq_fst [OF assms(1)] data
    using okr by (auto simp: Let_def py_or_def)
qed

theorem create_rfq_url_extraction_witness:
  "fst (create_rfq
      (example_env (\<lambda>k. 0) (\<lambda>k. Inr (example_response 201 [(''Location'', ''https://x.test/rfq/2'')]
          ''{\"rfq_url\": \"https://x.test/rfq/7\"}'' (Some (JObj [(''rfq_url'', JStr ''https://x.test/rfq/7'')])))))
      ''key'' ''secret'' fresh_world) = Inr ''https://x.test/rfq/7''
   \<and> fst (create_rfq
      (example_env (\<lambda>k. 0) (\<lambda>k. Inr (example_response 200 [(''Server'', ''nginx'')] ''{}'' (Some (JObj [])))))
      ''key'' ''secret'' fresh_world)
     = Inl (RuntimeError (PFmt
         [PStr ''Could not determine RFQ URL from response: status='', PInt 200,
          PStr '', body='', PJson (JObj []),
          PStr '', headers='', PDict [(''Server'', ''nginx'')]]))"
  using create_rfq_url_extraction
    [of "example_env (\<lambda>k. 0) (\<lambda>k. Inr (example_response 201 [(''Location'', ''https://x.test/rfq/2'')]
          ''{\"rfq_url\": \"https://x.test/rfq/7\"}'' (Some (JObj [(''rfq_url'', JStr ''https://x.test/rfq/7'')]))))"
        fresh_world
        "example_response 201 [(''Location'', ''https://x.test/rfq/2'')]
          ''{\"rfq_url\": \"https://x.test/rfq/7\"}'' (Some (JObj [(''rfq_url'', JStr ''https://x.test/rfq/7'')]))"
        "[(''rfq_url'', JStr ''https://x.test/rfq/7'')]" "''key''" "''secret''"]
    create_rfq_url_extraction
    [of "example_env (\<lambda>k. 0) (\<lambda>k. Inr (example_response 200 [(''Server'', ''nginx'')] ''{}'' (Some (JObj []))))"
        fresh_world
        "example_response 200 [(''Server'', ''nginx'')] ''{}'' (Some (JObj []))"
        "[]" "''key''" "''secret''"]
  by (simp add: rfq_eval Let_def)

text \<open>
  C4 as stated fails on two 200 responses without a \<open>Location\<close> header.  When the body is
  the JSON array \<^verbatim>\<open>[]\<close>, none of the three fields and no header is present, yet the call
  does not fail with MissingRfqUrl: \<^verbatim>\<open>data.get\<close> on a list raises \<^verbatim>\<open>AttributeError\<close>.
  When the body is not JSON, the call does fail with MissingRfqUrl, but the error carries
  the empty object the script read in its place, not the body of the response.
\<close>

theorem create_rfq_body_counterexample:
  "fst (create_rfq (always no_quotes) ''key'' ''secret'' fresh_world) = Inl AttributeError
   \<and> status_code no_quotes = 200 \<and> json_body no_quotes = Some (JArr [])
   \<and> body_text (example_response 200 [] ''<html>ok</html>'' None) = ''<html>ok</html>''
   \<and> fst (create_rfq (always (example_response 200 [] ''<html>ok</html>'' None))
          ''key'' ''secret'' fresh_world)
     = Inl (RuntimeError (PFmt
         [PStr ''Could not determine RFQ URL from response: status='', PInt 200,
          PStr '', body='', PJson (JObj []),
          PStr '', headers='', PDict []]))"
proof -
  let ?r = "example_response 200 [] ''<html>ok</html>'' None"
  have "answers (always no_quotes) (length (sent fresh_world)) no_quotes"
    and "answers (always ?r) (length (sent fresh_world)) ?r"
    by (simp_all add: rfq_eval)
  from create_rfq_fst [OF this(1)] create_rfq_fst [OF this(2)] show ?thesis
    by (simp add: rfq_eval no_quotes_def)
qed

text \<open>
  C10.  A body field that is present but falsy (the empty string, \<^verbatim>\<open>null\<close>, ...) counts
  as absent: among the candidates \<open>rfqUrl\<close>, \<open>rfq_url\<close>, \<open>url\<close>, \<open>Location\<close>, the first
  truthy one is taken, whatever falsy values stand before it; and the call fails with
  the \<^verbatim>\<open>RuntimeError\<close> (MissingRfqUrl) whenever all four are falsy, which includes a
  \<open>Location\<close> header that is present and empty.  A field is falsy exactly when it is
  missing or bound to a falsy value.
\<close>

theorem create_rfq_falsy_is_absent:
  assumes "answers e (length (sent w)) resp"
    and "ok resp"
    and "json_body resp = Some (JObj kvs) \<or> (json_body resp = None \<and> kvs = [])"
  shows "let c = [dict_get kvs ''rfqUrl'', dict_get kvs ''rfq_url'', dict_get kvs ''url'',
                  headers_get (resp_headers resp) ''Location'']
         in (\<forall>i u. i < 4 \<and> (\<forall>j < i. \<not> truthy (c ! j)) \<and> c ! i = JStr u \<and> u \<noteq> [] \<longrightarrow>
               fst (create_rfq e api_key secret_key w)
                 = Inr (if startswith u ''http://'' then ''https://'' @ drop 7 u else u))
          \<and> ((\<forall>j < 4. \<not> truthy (c ! j)) \<longrightarrow>
               fst (create_rfq e api_key secret_key w)
                 = Inl (RuntimeError (PFmt
                     [PStr ''Could not determine RFQ URL from response: status='',
                      PInt (status_code resp),
                      PStr '', body='', PJson (JObj kvs),
                      PStr '', headers='', PDict (resp_headers resp)])))
          \<and> (\<forall>k. \<not> truthy (dict_get kvs k)
                 \<longleftrightarrow> (map_of kvs k = None \<or> (\<exists>v. map_of kvs k = Some v \<and> \<not> truthy v)))"
proof -
  from assms(3) have data: "(case json_body resp of None \<Rightarrow> JObj [] | Some d \<Rightarrow> d) = JObj kvs"
    by auto
  have get: "\<not> truthy (dict_get kvs k)
      \<longleftrightarrow> (map_of kvs k = None \<or> (\<exists>v. map_of kvs k = Some v \<and> \<not> truthy v))" for k
    by (simp add: dict_get_def split: option.split)
  have res: "fst (create_rfq e api_key secret_key w) =
      (let rfq_url = py_or (py_or (py_or (dict_get kvs ''rfqUrl'') (dict_get kvs ''rfq_url''))
                                  (dict_get kvs ''url''))
                           (headers_get (resp_headers resp) ''Location'')
       in if \<not> truthy rfq_url
          then Inl (RuntimeError (PFmt
                 [PStr ''Could not determine RFQ URL from response: status='',
                  PInt (status_code resp),
                  PStr '', body='', PJson (JObj kvs),
                  PStr '', headers='', PDict (resp_headers resp)]))
          else (case rfq_url of
                  JStr s \<Rightarrow> Inr (if startswith s ''http://'' then ''https://'' @ drop 7 s else s)
                | _ \<Rightarrow> Inl AttributeError))"
    unfolding create_rfq_fst [OF assms(1)] data using assms(2) by (simp add: Let_def)
  have first: "fst (create_rfq e api_key secret_key w)
                 = Inr (if startswith u ''http://'' then ''https://'' @ drop 7 u else u)"
    if "i < 4"
      and "\<forall>j < i. \<not> truthy ([dict_get kvs ''rfqUrl'', dict_get kvs ''rfq_url'', dict_get kvs ''url'',
                  headers_get (resp_headers resp) ''Location''] ! j)"
      and "[dict_get kvs ''rfqUrl'', dict_get kvs ''rfq_url'', dict_get kvs ''url'',
                  headers_get (resp_headers resp) ''Location''] ! i = JStr u"
      and "u \<noteq> []" for i u
  proof -
    from that(1) consider "i = 0" | "i = 1" | "i = 2" | "i = 3" by arith
    then show ?thesis
    proof cases
      case 1
      with that show ?thesis unfolding res by (simp add: py_or_def Let_def)
    next
      case 2
      with that show ?thesis unfolding res by (simp add: py_or_def Let_def)
    next
      case 3
      with that(2) [rule_format, of 0] that(2) [rule_format, of 1] that(3)
      have "\<not> truthy (dict_get kvs ''rfqUrl'')" "\<not> truthy (dict_get kvs ''rfq_url'')"
        "dict_get kvs ''url'' = JStr u"
        by simp_all
      with that(4) show ?thesis unfolding res by (simp add: py_or_def Let_def)
    next
      case 4
      with that(2) [rule_format, of 0] that(2) [rule_format, of 1] that(2) [rule_format, of 2] that(3)
      have "\<not> truthy (dict_get kvs ''rfqUrl'')" "\<not> truthy (dict_get kvs ''rfq_url'')"
        "\<not> truthy (dict_get kvs ''url'')" "headers_get (resp_headers resp) ''Location'' = JStr u"
        by simp_all
      with that(4) show ?thesis unfolding res by (simp add: py_or_def Let_def)
    qed
  qed
  have none: "fst (create_rfq e api_key secret_key w)
                 = Inl (RuntimeError (PFmt
                     [PStr ''Could not determine RFQ URL from response: status='',
                      PInt (status_code resp),
                      PStr '', body='', PJson (JObj kvs),
                      PStr '', headers='', PDict (resp_headers resp)]))"
    if "\<forall>j < 4. \<not> truthy ([dict_get kvs ''rfqUrl'', dict_get kvs ''rfq_url'', dict_get kvs ''url'',
                  headers_get (resp_headers resp) ''Location''] ! j)"
  proof -
    from that [rule_format, of 0] that [rule_format, of 1] that [rule_format, of 2]
      that [rule_format, of 3]
    have "\<not> truthy (dict_get kvs ''rfqUrl'')" "\<not> truthy (dict_get kvs ''rfq_url'')"
        "\<not> truthy (dict_get kvs ''url'')" "\<not> truthy (headers_get (resp_headers resp) ''Location'')"
      by simp_all
    then show ?thesis unfolding res by (simp add: py_or_def Let_def)
  qed
  show ?thesis
    unfolding Let_def using first none get by blast
qed

theorem create_rfq_falsy_is_absent_witness:
  "fst (create_rfq
      (always (example_response 200 [(''Location'', ''https://x.test/rfq/9'')]
         ''{\"rfqUrl\": \"\", \"rfq_url\": null}''
         (Some (JObj [(''rfqUrl'', JStr ''''), (''rfq_url'', JNull)]))))
      ''key'' ''secret'' fresh_world) = Inr ''https://x.test/rfq/9''
   \<and> fst (create_rfq
      (always (example_response 200 [(''location'', '''')] ''{\"rfqUrl\": \"\"}''
         (Some (JObj [(''rfqUrl'', JStr '''')]))))
      ''key'' ''secret'' fresh_world)
     = Inl (RuntimeError (PFmt
         [PStr ''Could not determine RFQ URL from response: status='', PInt 200,
          PStr '', body='', PJson (JObj [(''rfqUrl'', JStr '''')]),
          PStr '', headers='', PDict [(''location'', '''')]]))"
proof -
  have four: "j < 4 \<longleftrightarrow> j = 0 \<or> j = 1 \<or> j = 2 \<or> j = 3" for j :: nat
    by arith
  have three: "j < 3 \<longleftrightarrow> j = 0 \<or> j = 1 \<or> j = 2" for j :: nat
    by arith
  let ?r1 = "example_response 200 [(''Location'', ''https://x.test/rfq/9'')]
         ''{\"rfqUrl\": \"\", \"rfq_url\": null}''
         (Some (JObj [(''rfqUrl'', JStr ''''), (''rfq_url'', JNull)]))"
  let ?r2 = "example_response 200 [(''location'', '''')] ''{\"rfqUrl\": \"\"}''
         (Some (JObj [(''rfqUrl'', JStr '''')]))"
  have a: "fst (create_rfq (always ?r1) ''key'' ''secret'' fresh_world) = Inr ''https://x.test/rfq/9''"
    using create_rfq_falsy_is_absent
      [of "always ?r1" fresh_world ?r1 "[(''rfqUrl'', JStr ''''), (''rfq_url'', JNull)]"
          "''key''" "''secret''", unfolded Let_def, THEN conjunct1, rule_format,
       of 3 "''https://x.test/rfq/9''"]
    by (simp add: rfq_eval three)
  have b: "fst (create_rfq (always ?r2) ''key'' ''secret'' fresh_world)
     = Inl (RuntimeError (PFmt
         [PStr ''Could not determine RFQ URL from response: status='', PInt 200,
          PStr '', body='', PJson (JObj [(''rfqUrl'', JStr '''')]),
          PStr '', headers='', PDict [(''location'', '''')]]))"
    using create_rfq_falsy_is_absent
      [of "always ?r2" fresh_world ?r2 "[(''rfqUrl'', JStr '''')]"
          "''key''" "''secret''", unfolded Let_def, THEN conjunct2, THEN conjunct1]
    by (simp add: rfq_eval four)
  from a b show ?thesis by simp
qed

text \<open>
  C6.  When the extracted RFQ URL begins with \<^verbatim>\<open>http://\<close>, \<open>create_rfq\<close> returns it with
  that prefix replaced by \<^verbatim>\<open>https://\<close>; an extracted URL of any other form (another
  scheme, upper-case \<^verbatim>\<open>HTTP://\<close>, a relative path) is returned unchanged.
\<close>

theorem create_rfq_scheme_upgrade:
  assumes "answers e (length (sent w)) resp"
    and "ok resp"
    and "json_body resp = Some (JObj kvs) \<or> (json_body resp = None \<and> kvs = [])"
    and "py_or (py_or (py_or (dict_get kvs ''rfqUrl'') (dict_get kvs ''rfq_url''))
                      (dict_get kvs ''url''))
               (headers_get (resp_headers resp) ''Location'') = JStr u"
    and "u \<noteq> []"
  shows "(\<forall>rest. u = ''http://'' @ rest \<longrightarrow>
            fst (create_rfq e api_key secret_key w) = Inr (''https://'' @ rest))
       \<and> (\<not> startswith u ''http://'' \<longrightarrow> fst (create_rfq e api_key secret_key w) = Inr u)"
proof -
  from assms(3) have data: "(case json_body resp of None \<Rightarrow> JObj [] | Some d \<Rightarrow> d) = JObj kvs"
    by auto
  have "fst (create_rfq e api_key secret_key w)
          = Inr (if startswith u ''http://'' then ''https://'' @ drop 7 u else u)"
    unfolding create_rfq_fst [OF assms(1)] data using assms(2,4,5) by (simp add: Let_def)
  then show ?thesis by (auto simp: startswith_def)
qed

theorem create_rfq_scheme_upgrade_witness:
  "fst (create_rfq
      (always (example_response 200 [] ''{\"rfqUrl\": \"http://x.test/rfq/1\"}''
         (Some (JObj [(''rfqUrl'', JStr ''http://x.test/rfq/1'')]))))
      ''key'' ''secret'' fresh_world) = Inr ''https://x.test/rfq/1''
   \<and> fst (create_rfq
      (always (example_response 200 [] ''{\"rfqUrl\": \"HTTP://x.test/rfq/1\"}''
         (Some (JObj [(''rfqUrl'', JStr ''HTTP://x.test/rfq/1'')]))))
      ''key'' ''secret'' fresh_world) = Inr ''HTTP://x.test/rfq/1''
   \<and> fst (create_rfq
      (always (example_response 201 [(''Location'', ''/api/v1/request-for-quotes/42'')] '''' None))
      ''key'' ''secret'' fresh_world) = Inr ''/api/v1/request-for-quotes/42''"
proof -
  let ?r1 = "example_response 200 [] ''{\"rfqUrl\": \"http://x.test/rfq/1\"}''
         (Some (JObj [(''rfqUrl'', JStr ''http://x.test/rfq/1'')]))"
  let ?r2 = "example_response 200 [] ''{\"rfqUrl\": \"HTTP://x.test/rfq/1\"}''
         (Some (JObj [(''rfqUrl'', JStr ''HTTP://x.test/rfq/1'')]))"
  let ?r3 = "example_response 201 [(''Location'', ''/api/v1/request-for-quotes/42'')] '''' None"
  have a: "fst (create_rfq (always ?r1) ''key'' ''secret'' fresh_world) = Inr ''https://x.test/rfq/1''"
    using create_rfq_scheme_upgrade
      [of "always ?r1" fresh_world ?r1 "[(''rfqUrl'', JStr ''http://x.test/rfq/1'')]"
          "''http://x.test/rfq/1''" "''key''" "''secret''"]
    by (simp add: rfq_eval)
  have b: "fst (create_rfq (always ?r2) ''key'' ''secret'' fresh_world) = Inr ''HTTP://x.test/rfq/1''"
    using create_rfq_scheme_upgrade
      [of "always ?r2" fresh_world ?r2 "[(''rfqUrl'', JStr ''HTTP://x.test/rfq/1'')]"
          "''HTTP://x.test/rfq/1''" "''key''" "''secret''"]
    by (simp add: rfq_eval)
  have c: "fst (create_rfq (always ?r3) ''key'' ''secret'' fresh_world)
             = Inr ''/api/v1/request-for-quotes/42''"
    using create_rfq_scheme_upgrade
      [of "always ?r3" fresh_world ?r3 "[]"
          "''/api/v1/request-for-quotes/42''" "''key''" "''secret''"]
    by (simp add: rfq_eval)
  from a b c show ?thesis by simp
qed

text \<open>
  C7 (as amended).  On the create request, every response with a status from 400 to 599
  surfaces as \<^verbatim>\<open>HTTPError\<close>, whatever its body; a response with any other status whose
  body is not valid JSON surfaces as the \<^verbatim>\<open>RuntimeError\<close> (MissingRfqUrl) when it has
  no non-empty \<open>Location\<close> header, and otherwise yields the URL of that header.
\<close>

theorem create_rfq_failure_modes:
  assumes "answers e (length (sent w)) resp"
  shows "(400 \<le> status_code resp \<and> status_code resp < 600 \<longrightarrow>
            fst (create_rfq e api_key secret_key w) = Inl (HTTPError resp))
       \<and> (\<not> (400 \<le> status_code resp \<and> status_code resp < 600) \<and> json_body resp = None
            \<and> \<not> truthy (headers_get (resp_headers resp) ''Location'') \<longrightarrow>
            fst (create_rfq e api_key secret_key w)
              = Inl (RuntimeError (PFmt
                  [PStr ''Could not determine RFQ URL from response: status='',
                   PInt (status_code resp),
                   PStr '', body='', PJson (JObj []),
                   PStr '', headers='', PDict (resp_headers resp)])))
       \<and> (\<forall>u. \<not> (400 \<le> status_code resp \<and> status_code resp < 600) \<and> json_body resp = None
            \<and> headers_get (resp_headers resp) ''Location'' = JStr u \<and> u \<noteq> [] \<longrightarrow>
            fst (create_rfq e api_key secret_key w)
              = Inr (if startswith u ''http://'' then ''https://'' @ drop 7 u else u))"
  unfolding create_rfq_fst [OF assms]
  by (auto simp: Let_def ok_def py_or_def dict_get_def)

theorem create_rfq_failure_modes_witness:
  "fst (create_rfq (always (example_response 503 [] ''<html>Service Unavailable</html>'' None))
      ''key'' ''secret'' fresh_world)
     = Inl (HTTPError (example_response 503 [] ''<html>Service Unavailable</html>'' None))
   \<and> fst (create_rfq (always (example_response 200 [] ''<html>ok</html>'' None))
      ''key'' ''secret'' fresh_world)
     = Inl (RuntimeError (PFmt
         [PStr ''Could not determine RFQ URL from response: status='', PInt 200,
          PStr '', body='', PJson (JObj []),
          PStr '', headers='', PDict []]))"
  using create_rfq_failure_modes
      [of "always (example_response 503 [] ''<html>Service Unavailable</html>'' None)" fresh_world
          "example_response 503 [] ''<html>Service Unavailable</html>'' None" "''key''" "''secret''"]
    create_rfq_failure_modes
      [of "always (example_response 200 [] ''<html>ok</html>'' None)" fresh_world
          "example_response 200 [] ''<html>ok</html>'' None" "''key''" "''secret''"]
  by (simp add: rfq_eval)

text \<open>
  C7 as stated fails twice: a 200 response with a body that is not JSON and a \<open>Location\<close>
  header is a success, not MissingRfqUrl; and a 304 response (not 2xx) passes
  \<^verbatim>\<open>raise_for_status\<close>, so that it surfaces as MissingRfqUrl, not as \<^verbatim>\<open>HTTPError\<close>.
\<close>

theorem create_rfq_failure_modes_counterexample:
  "fst (create_rfq
      (always (example_response 200 [(''Location'', ''https://x.test/rfq/1'')] ''<html>ok</html>'' None))
      ''key'' ''secret'' fresh_world) = Inr ''https://x.test/rfq/1''
   \<and> fst (create_rfq (always (example_response 304 [] '''' None)) ''key'' ''secret'' fresh_world)
     = Inl (RuntimeError (PFmt
         [PStr ''Could not determine RFQ URL from response: status='', PInt 304,
          PStr '', body='', PJson (JObj []),
          PStr '', headers='', PDict []]))"
proof -
  let ?r1 = "example_response 200 [(''Location'', ''https://x.test/rfq/1'')] ''<html>ok</html>'' None"
  let ?r2 = "example_response 304 [] '''' None"
  have "answers (always ?r1) (length (sent fresh_world)) ?r1"
    and "answers (always ?r2) (length (sent fresh_world)) ?r2"
    by (simp_all add: rfq_eval)
  from create_rfq_fst [OF this(1)] create_rfq_fst [OF this(2)] show ?thesis
    by (simp add: rfq_eval)
qed

subsection \<open>The URL parser on examples\<close>

lemmas url_eval = urlparse_def urlsplit_def split_scheme_def splitnetloc_def netloc_ok_def splitparams_def
  split_first_def is_ascii_alpha_def is_ascii_def scheme_chars_def uses_params_def lower_def
  lower_char_def Let_def

lemma parse_example:
  "urlparse e ''https://x.test/rfq/123''
     = Inr \<lparr>url_scheme = ''https'', url_netloc = ''x.test'', url_path = ''/rfq/123'',
            url_params = '''', url_query = '''', url_fragment = ''''\<rparr>"
  by (simp add: url_eval)

lemma parse_example_slash:
  "urlparse e ''https://x.test/rfq/123/''
     = Inr \<lparr>url_scheme = ''https'', url_netloc = ''x.test'', url_path = ''/rfq/123/'',
            url_params = '''', url_query = '''', url_fragment = ''''\<rparr>"
  by (simp add: url_eval)

lemma parse_example_params:
  "urlparse e ''https://x.test/rfq/123;v=1''
     = Inr \<lparr>url_scheme = ''https'', url_netloc = ''x.test'', url_path = ''/rfq/123'',
            url_params = ''v=1'', url_query = '''', url_fragment = ''''\<rparr>"
  by (simp add: url_eval)

lemma parse_example_params_slash:
  "urlparse e ''https://x.test/rfq/123;v=1/''
     = Inr \<lparr>url_scheme = ''https'', url_netloc = ''x.test'', url_path = ''/rfq/123;v=1/'',
            url_params = '''', url_query = '''', url_fragment = ''''\<rparr>"
  by (simp add: url_eval)

lemma parse_bad_host: "urlparse e ''http://[::1/rfq/1'' = Inl ValueError"
  by (simp add: url_eval)

subsection \<open>Executing a quote\<close>

text \<open>
  C5 (as amended).  For every response to the execute request with a status from 400 to
  599, \<open>execute_quote\<close> raises the \<^verbatim>\<open>HTTPError\<close> that carries the response, so its status
  code and body, and before raising it prints the diagnostic context: the status, the
  URL, the method, the path that was signed, the \<^verbatim>\<open>x-*\<close>, \<^verbatim>\<open>content-type\<close> and
  \<^verbatim>\<open>accept\<close> headers and the body of the request as sent, all response headers, and the
  response body text as it is.
\<close>

theorem execute_quote_error_context:
  assumes "urlparse e rfq_url = Inr parsed"
    and "answers e (length (sent w)) resp"
    and "400 \<le> status_code resp" and "status_code resp < 600"
  shows "fst (execute_quote e rfq_url quote_id api_key secret_key w) = Inl (HTTPError resp)
       \<and> stdout (snd (execute_quote e rfq_url quote_id api_key secret_key w))
         = stdout w @
           [[PFmt [PStr ''sending payload '', PJson (JObj [(''winningQuoteId'', JStr quote_id)]),
                   PStr '' to '', PStr (rstrip (url_path parsed) ''/'' @ ''/execute'')]],
            [PStr ''---- EXECUTE ERROR ----''],
            [PStr ''Status code:'', PInt (status_code resp)],
            [PStr ''URL:'', PStr (url_scheme parsed @ ''://'' @ url_netloc parsed
                                   @ rstrip (url_path parsed) ''/'' @ ''/execute'')],
            [PStr ''Method actually used:'', PStr (sent_method resp)],
            [PStr ''Path used for signature:'', PStr (rstrip (url_path parsed) ''/'' @ ''/execute'')],
            [PStr ''Request headers:'', PDict (shown_headers (sent_headers resp))],
            [PStr ''Request body:'', (case sent_body resp of None \<Rightarrow> PNone | Some b \<Rightarrow> PBytes b)],
            [PStr ''Response headers:'', PDict (resp_headers resp)],
            [PStr ''Response body:'', PStr (body_text resp)],
            [PStr ''------------------------'']]"
  using assms
  unfolding execute_quote_def make_auth_headers_def session_request_def raise_for_status_def
    answers_def ok_def print_def
  by (simp add: Let_def)

theorem execute_quote_error_context_witness:
  "fst (execute_quote
      (always ((example_response 400 [(''Content-Type'', ''text/plain'')] ''insufficient funds'' None)
                 \<lparr>sent_headers := [(''User-Agent'', ''python-requests''), (''x-api-key'', ''key''),
                                    (''Content-Type'', ''application/json'')],
                   sent_body := Some ''{\"winningQuoteId\": \"q1\"}''\<rparr>))
      ''https://x.test/rfq/123'' ''q1'' ''key'' ''secret'' fresh_world)
     = Inl (HTTPError
         ((example_response 400 [(''Content-Type'', ''text/plain'')] ''insufficient funds'' None)
            \<lparr>sent_headers := [(''User-Agent'', ''python-requests''), (''x-api-key'', ''key''),
                               (''Content-Type'', ''application/json'')],
              sent_body := Some ''{\"winningQuoteId\": \"q1\"}''\<rparr>))
   \<and> stdout (snd (execute_quote
      (always ((example_response 400 [(''Content-Type'', ''text/plain'')] ''insufficient funds'' None)
                 \<lparr>sent_headers := [(''User-Agent'', ''python-requests''), (''x-api-key'', ''key''),
                                    (''Content-Type'', ''application/json'')],
                   sent_body := Some ''{\"winningQuoteId\": \"q1\"}''\<rparr>))
      ''https://x.test/rfq/123'' ''q1'' ''key'' ''secret'' fresh_world))
     = [[PFmt [PStr ''sending payload '', PJson (JObj [(''winningQuoteId'', JStr ''q1'')]),
               PStr '' to '', PStr ''/rfq/123/execute'']],
        [PStr ''---- EXECUTE ERROR ----''],
        [PStr ''Status code:'', PInt 400],
        [PStr ''URL:'', PStr ''https://x.test/rfq/123/execute''],
        [PStr ''Method actually used:'', PStr ''POST''],
        [PStr ''Path used for signature:'', PStr ''/rfq/123/execute''],
        [PStr ''Request headers:'', PDict [(''x-api-key'', ''key''), (''Content-Type'', ''application/json'')]],
        [PStr ''Request body:'', PBytes ''{\"winningQuoteId\": \"q1\"}''],
        [PStr ''Response headers:'', PDict [(''Content-Type'', ''text/plain'')]],
        [PStr ''Response body:'', PStr ''insufficient funds''],
        [PStr ''------------------------'']]"
proof -
  let ?resp = "(example_response 400 [(''Content-Type'', ''text/plain'')] ''insufficient funds'' None)
                 \<lparr>sent_headers := [(''User-Agent'', ''python-requests''), (''x-api-key'', ''key''),
                                    (''Content-Type'', ''application/json'')],
                   sent_body := Some ''{\"winningQuoteId\": \"q1\"}''\<rparr>"
  have a: "answers (always ?resp) (length (sent fresh_world)) ?resp"
    by (simp add: answers_def always_def example_env_def fresh_world_def)
  have b: "400 \<le> status_code ?resp" "status_code ?resp < 600"
    by (simp_all add: example_response_def)
  show ?thesis
    using execute_quote_error_context
      [OF parse_example a b, of "''q1''" "''key''" "''secret''"]
    by (simp add: example_response_def fresh_world_def shown_headers_def startswith_def
          lower_def lower_char_def rstrip_def)
qed

text \<open>
  C5 as stated fails: a 304 response is not 2xx, yet \<^verbatim>\<open>resp.ok\<close> holds for it (the
  \<^verbatim>\<open>requests\<close> library counts only 400 to 599 as errors), and \<open>execute_quote\<close> returns
  its body instead of raising.
\<close>

theorem execute_quote_304_counterexample:
  "\<not> (200 \<le> status_code (example_response 304 [] '''' None)
        \<and> status_code (example_response 304 [] '''' None) < 300)
   \<and> fst (execute_quote (always (example_response 304 [] '''' None))
          ''https://x.test/rfq/123'' ''q1'' ''key'' ''secret'' fresh_world) = Inr ''''"
  unfolding execute_quote_def parse_example make_auth_headers_def session_request_def
    raise_for_status_def ok_def print_def
  by (simp add: Let_def always_def example_env_def example_response_def fresh_world_def)

subsection \<open>Nonces\<close>

text \<open>
  C8 (as amended).  Every call of \<open>make_auth_headers\<close> consumes one reading of the clock
  and takes as its nonce the decimal rendering of \<^verbatim>\<open>int(time.time() * 1000)\<close>, that
  reading times 1000 in double arithmetic, truncated to an integer; nothing is kept from
  one call to the next.  So the nonces are non-decreasing (as numbers) whenever the clock
  readings are; and the nonces of two calls differ whenever the first reading is at or
  after the epoch and less than \<^verbatim>\<open>2^42\<close> seconds after it, and the second reading is at
  least one millisecond after the first.
\<close>

theorem make_auth_headers_nonce:
  "map_of (fst (make_auth_headers e path api_key secret_key w)) ''x-nonce''
     = Some (str_int (py_int (float_mul (time_time e (ticks w)) 1000)))
   \<and> ticks (snd (make_auth_headers e path api_key secret_key w)) = Suc (ticks w)
   \<and> (time_time e (ticks w) \<le> time_time e (ticks w') \<longrightarrow>
        py_int (float_mul (time_time e (ticks w)) 1000)
          \<le> py_int (float_mul (time_time e (ticks w')) 1000))
   \<and> (0 \<le> time_time e (ticks w) \<and> time_time e (ticks w) < 2 ^ 42
        \<and> time_time e (ticks w) + 1 / 1000 \<le> time_time e (ticks w') \<longrightarrow>
        map_of (fst (make_auth_headers e path api_key secret_key w)) ''x-nonce''
          \<noteq> map_of (fst (make_auth_headers e path' api_key' secret_key' w')) ''x-nonce'')"
proof -
  have nonce: "map_of (fst (make_auth_headers e p a s v)) ''x-nonce''
     = Some (str_int (py_int (float_mul (time_time e (ticks v)) 1000)))" for p a s v
    by (simp add: make_auth_headers_def Let_def)
  have tick: "ticks (snd (make_auth_headers e path api_key secret_key w)) = Suc (ticks w)"
    by (simp add: make_auth_headers_def Let_def)
  have mono: "py_int (float_mul (time_time e (ticks w)) 1000)
      \<le> py_int (float_mul (time_time e (ticks w')) 1000)"
    if "time_time e (ticks w) \<le> time_time e (ticks w')"
    unfolding float_mul_def
    by (intro py_int_mono round_double_mono) (use that in simp)
  have apart: "str_int (py_int (float_mul (time_time e (ticks w)) 1000))
      \<noteq> str_int (py_int (float_mul (time_time e (ticks w')) 1000))"
    if "0 \<le> time_time e (ticks w)" "time_time e (ticks w) < 2 ^ 42"
      "time_time e (ticks w) + 1 / 1000 \<le> time_time e (ticks w')"
  proof
    assume "str_int (py_int (float_mul (time_time e (ticks w)) 1000))
      = str_int (py_int (float_mul (time_time e (ticks w')) 1000))"
    then have eq: "py_int (float_mul (time_time e (ticks w)) 1000)
        = py_int (float_mul (time_time e (ticks w')) 1000)"
      by (rule str_int_inj)
    from that(1) have a: "0 \<le> time_time e (ticks w) * 1000" by simp
    from that(3) have b: "time_time e (ticks w) * 1000 + 1 \<le> time_time e (ticks w') * 1000"
      by simp
    from that(2) have c: "time_time e (ticks w) * 1000 + 1 < 2 ^ 52" by simp
    from round_double_gap [OF a b c] eq show False by (simp add: float_mul_def)
  qed
  show ?thesis
    unfolding nonce using tick mono apart by simp
qed

theorem make_auth_headers_nonce_witness:
  "map_of (fst (make_auth_headers (example_env slow_clock quoting_server)
             ''/api/v1/request-for-quotes'' ''key'' ''secret'' fresh_world)) ''x-nonce''
     = Some ''1700000000000''
   \<and> map_of (fst (make_auth_headers (example_env slow_clock quoting_server)
             ''/rfq/123/quotes'' ''key'' ''secret''
             (snd (make_auth_headers (example_env slow_clock quoting_server)
                ''/api/v1/request-for-quotes'' ''key'' ''secret'' fresh_world)))) ''x-nonce''
     = Some ''1700000000001''
   \<and> map_of (fst (make_auth_headers (example_env slow_clock quoting_server)
             ''/api/v1/request-for-quotes'' ''key'' ''secret'' fresh_world)) ''x-nonce''
     \<noteq> map_of (fst (make_auth_headers (example_env slow_clock quoting_server)
             ''/rfq/123/quotes'' ''key'' ''secret''
             (snd (make_auth_headers (example_env slow_clock quoting_server)
                ''/api/v1/request-for-quotes'' ''key'' ''secret'' fresh_world)))) ''x-nonce''"
proof -
  let ?e = "example_env slow_clock quoting_server"
  let ?w = "snd (make_auth_headers ?e ''/api/v1/request-for-quotes'' ''key'' ''secret'' fresh_world)"
  have w: "ticks ?w = 1" "ticks fresh_world = 0"
    by (simp_all add: make_auth_headers_def Let_def fresh_world_def)
  have c: "time_time ?e 0 = 1700000000" "time_time ?e 1 = 870400000001 / 512"
    by (simp_all add: example_env_def slow_clock_def)
  have s0: "str_int 1700000000000 = ''1700000000000''"
    by (simp add: str_int_def digit_char_def)
  have s1: "str_int 1700000000001 = ''1700000000001''"
    by (simp add: str_int_def digit_char_def)
  have p0: "py_int (float_mul 1700000000 1000) = 1700000000000"
    by (simp add: float_mul_def round_double_examples py_int_def)
  have p1: "py_int (float_mul (870400000001 / 512) 1000) = 1700000000001"
    by (simp add: float_mul_def round_double_examples py_int_def floor_rat_numeral)
  have gap: "(1700000000::rat) + 1 / 1000 \<le> 870400000001 / 512" "(1700000000::rat) < 2 ^ 42"
    by simp_all
  show ?thesis
    using make_auth_headers_nonce
      [of ?e "''/api/v1/request-for-quotes''" "''key''" "''secret''" fresh_world ?w
          "''/rfq/123/quotes''" "''key''" "''secret''"]
      make_auth_headers_nonce
      [of ?e "''/rfq/123/quotes''" "''key''" "''secret''" ?w ?w
          "''/rfq/123/quotes''" "''key''" "''secret''"]
    unfolding w c p0 p1 s0 s1 using gap by simp
qed

lemma fast_clock_nonce:
  "str_int (py_int (float_mul (fast_clock 0) 1000)) = ''1700000000000''"
  "str_int (py_int (float_mul (fast_clock (Suc 0)) 1000)) = ''1700000000000''"
  by (simp_all add: fast_clock_def float_mul_def round_double_examples py_int_def
        floor_rat_numeral str_int_def digit_char_def)

text \<open>
  C8 as stated fails: the nonce has millisecond resolution, so two requests of one run
  whose clock readings fall within the same millisecond carry the same nonce.  Here the
  create request and the first quotes request are an eighth of a millisecond apart.
\<close>

theorem nonce_reused_counterexample:
  "fast_clock 0 < fast_clock 1
   \<and> map (\<lambda>r. (req_method r, req_url r, map_of (req_headers r) ''x-nonce''))
       (sent (snd (poll_quotes (example_env fast_clock quoting_server)
                     ''https://x.test/rfq/123'' ''key'' ''secret'' 10 (PyFloat 1)
                     (snd (create_rfq (example_env fast_clock quoting_server)
                             ''key'' ''secret'' fresh_world)))))
     = [(''POST'', ''https://api-staging.checker.finance/api/v1/request-for-quotes'',
         Some ''1700000000000''),
        (''GET'', ''https://x.test/rfq/123/quotes'', Some ''1700000000000'')]"
proof -
  let ?e = "example_env fast_clock quoting_server"
  have c: "sent (snd (create_rfq ?e ''key'' ''secret'' fresh_world))
             = [\<lparr>req_method = ''POST'',
                  req_url = ''https://api-staging.checker.finance/api/v1/request-for-quotes'',
                  req_json = Some rfq_payload,
                  req_headers = fst (make_auth_headers ?e RFQ_PATH ''key'' ''secret'' fresh_world),
                  req_timeout = 10\<rparr>]"
    and t: "ticks (snd (create_rfq ?e ''key'' ''secret'' fresh_world)) = Suc 0"
    unfolding create_rfq_def
    by (simp_all add: make_auth_headers_def session_request_def raise_for_status_def ok_def
          example_env_def quoting_server_def example_response_def fresh_world_def
          BASE_URL_def RFQ_PATH_def dict_get_def py_or_def startswith_def print_def Let_def)
  have u: "[1..10] = 1 # [2..10]"
    by (simp add: upto_rec1)
  have p: "sent (snd (poll_quotes ?e ''https://x.test/rfq/123'' ''key'' ''secret'' 10 (PyFloat 1) w))
             = sent w @
               [\<lparr>req_method = ''GET'', req_url = ''https://x.test/rfq/123/quotes'',
                  req_json = None,
                  req_headers = fst (make_auth_headers ?e ''/rfq/123/quotes'' ''key'' ''secret'' w),
                  req_timeout = 10\<rparr>]"
    if "length (sent w) = Suc 0" for w
    unfolding poll_quotes_def parse_example u using that
    by (simp add: make_auth_headers_def session_request_def raise_for_status_def ok_def
          example_env_def quoting_server_def example_response_def rstrip_def print_def Let_def)
  have n: "map_of (fst (make_auth_headers ?e q ''key'' ''secret'' w)) ''x-nonce''
             = Some (str_int (py_int (float_mul (fast_clock (ticks w)) 1000)))" for q w
    by (simp add: make_auth_headers_def example_env_def Let_def)
  have tf: "ticks fresh_world = 0"
    by (simp add: fresh_world_def)
  have "fast_clock 0 < fast_clock 1"
    by (simp add: fast_clock_def)
  moreover have "length (sent (snd (create_rfq ?e ''key'' ''secret'' fresh_world))) = Suc 0"
    unfolding c by simp
  ultimately show ?thesis
    unfolding p [OF \<open>length (sent (snd (create_rfq ?e ''key'' ''secret'' fresh_world))) = Suc 0\<close>]
    unfolding c
    by (simp add: n t fast_clock_nonce tf)
qed

subsection \<open>Polling\<close>

lemmas poll_step = make_auth_headers_def session_request_def raise_for_status_def print_def
  Let_def

text \<open>A sleep returns exactly when it accepts its length, and then only records it.\<close>

lemma sleep_accepted:
  "sleep_accepts e secs (length (slept w)) \<Longrightarrow> sleep e secs w = Inr (w\<lparr>slept := slept w @ [secs]\<rparr>)"
  by (auto simp: sleep_accepts_def sleep_def split: sum.splits)

lemma sleep_returns:
  "sleep e secs w = Inr w' \<Longrightarrow> w' = w\<lparr>slept := slept w @ [secs]\<rparr>"
  by (auto simp: sleep_def split: sum.splits if_splits)

lemma sleep_accepts_iff:
  "sleep_accepts e secs (length (slept w)) \<longleftrightarrow> (\<exists>w'. sleep e secs w = Inr w')"
  by (auto simp: sleep_accepts_def sleep_def split: sum.splits)

text \<open>
  The lengths from 0 to four thousand million seconds are accepted, as a float and as an
  int, while the monotonic clock reads less than \<^verbatim>\<open>2^62\<close> ns (146 years).
\<close>

lemma sleep_accepts_moderate:
  assumes "0 \<le> time_monotonic e k" "time_monotonic e k < 2 ^ 62"
  shows "0 \<le> d \<Longrightarrow> d \<le> 4000000000 \<Longrightarrow> sleep_accepts e (PyFloat d) k"
    and "0 \<le> n \<Longrightarrow> n \<le> 4000000000 \<Longrightarrow> sleep_accepts e (PyInt n) k"
proof -
  have wrap: "0 \<le> wrap64 (time_monotonic e k + t)" if "0 \<le> t" "t \<le> 4000000000000000000" for t
  proof -
    have "0 \<le> time_monotonic e k + t + 2 ^ 63" "time_monotonic e k + t + 2 ^ 63 < 2 ^ 64"
      using assms that by simp_all
    then have "(time_monotonic e k + t + 2 ^ 63) mod 2 ^ 64 = time_monotonic e k + t + 2 ^ 63"
      by (rule mod_pos_pos_trivial)
    then show ?thesis using assms(1) that(1) by (simp add: wrap64_def)
  qed
  show "sleep_accepts e (PyFloat d) k" if "0 \<le> d" "d \<le> 4000000000"
  proof -
    define x where "x = float_mul d 1000000000"
    have "round_double 0 \<le> round_double (d * 1000000000)"
      using that(1) by (intro round_double_mono) simp
    then have x0: "0 \<le> x" by (simp add: x_def float_mul_def)
    have "round_double (d * 1000000000) \<le> round_double (of_int 3814697265625 * 2 powi 20)"
      using that(2) by (intro round_double_mono) simp
    also have "\<dots> = of_int 3814697265625 * 2 powi 20"
      by (rule round_double_exact) simp
    finally have x1: "x \<le> 4000000000000000000" by (simp add: x_def float_mul_def)
    have r: "round_away x = \<lceil>x\<rceil>" using x0 by (simp add: round_away_def)
    have c0: "0 \<le> \<lceil>x\<rceil>" using x0 by (simp add: zero_le_ceiling)
    have "\<lceil>x\<rceil> \<le> \<lceil>4000000000000000000::rat\<rceil>" using x1 by (rule ceiling_mono)
    then have c1: "\<lceil>x\<rceil> \<le> 4000000000000000000" by simp
    show ?thesis
      unfolding sleep_accepts_def sleep_timeout.simps x_def [symmetric] Let_def r
      using c0 c1 wrap [OF c0 c1] by simp
  qed
  show "sleep_accepts e (PyInt n) k" if "0 \<le> n" "n \<le> 4000000000"
    using that wrap [of "n * 1000000000"] by (simp add: sleep_accepts_def)
qed

text \<open>The loop sends at most one request per attempt.\<close>

lemma poll_loop_sent_bound:
  "length (sent (snd (poll_loop e qu qp k s m d as w))) \<le> length (sent w) + length as"
proof (induction as arbitrary: w)
  case Nil
  show ?case by simp
next
  case (Cons a as)
  show ?case
    by (auto simp: poll_step split: sum.splits option.splits dest!: sleep_returns
          intro: order_trans [OF Cons.IH])
qed

text \<open>One attempt: an empty list sleeps and goes on, a non-empty list returns its head.\<close>

lemma poll_loop_empty_step:
  assumes "quotes_at e (length (sent w)) (JArr [])" and "sleep_accepts e d (length (slept w))"
  shows "\<exists>w'. poll_loop e qu qp k s m d (a # as) w = poll_loop e qu qp k s m d as w'
            \<and> length (sent w') = Suc (length (sent w)) \<and> slept w' = slept w @ [d]"
  using assms
  by (auto simp: poll_step quotes_at_def answers_def sleep_accepted)

lemma poll_loop_quote_step:
  assumes "quotes_at e (length (sent w)) (JArr (q # qs))"
  shows "fst (poll_loop e qu qp k s m d (a # as) w) = Inr q
       \<and> length (sent (snd (poll_loop e qu qp k s m d (a # as) w))) = Suc (length (sent w))
       \<and> slept (snd (poll_loop e qu qp k s m d (a # as) w)) = slept w"
  using assms
  by (auto simp: poll_step quotes_at_def answers_def)

lemma poll_loop_all_empty:
  assumes "\<forall>j < length as. sleep_accepts e d (length (slept w) + j)"
    and "\<forall>j < length as. quotes_at e (length (sent w) + j) (JArr [])"
  shows "fst (poll_loop e qu qp k s m d as w) = Inl TimeoutError
       \<and> length (sent (snd (poll_loop e qu qp k s m d as w))) = length (sent w) + length as
       \<and> slept (snd (poll_loop e qu qp k s m d as w)) = slept w @ replicate (length as) d"
  using assms
proof (induction as arbitrary: w)
  case Nil
  show ?case by simp
next
  case (Cons a as)
  from Cons.prems have "quotes_at e (length (sent w)) (JArr [])"
    and "sleep_accepts e d (length (slept w))" by force+
  from poll_loop_empty_step [OF this]
  obtain w' where step: "poll_loop e qu qp k s m d (a # as) w = poll_loop e qu qp k s m d as w'"
    and len: "length (sent w') = Suc (length (sent w))" and sl: "slept w' = slept w @ [d]"
    by blast
  have acc: "\<forall>j < length as. sleep_accepts e d (length (slept w') + j)"
  proof (intro allI impI)
    fix j assume "j < length as"
    then have "Suc j < length (a # as)" by simp
    with Cons.prems(1) have "sleep_accepts e d (length (slept w) + Suc j)" by blast
    with sl show "sleep_accepts e d (length (slept w') + j)" by simp
  qed
  have "\<forall>j < length as. quotes_at e (length (sent w') + j) (JArr [])"
  proof (intro allI impI)
    fix j assume "j < length as"
    then have "Suc j < length (a # as)" by simp
    with Cons.prems(2) have "quotes_at e (length (sent w) + Suc j) (JArr [])" by blast
    with len show "quotes_at e (length (sent w') + j) (JArr [])" by simp
  qed
  from Cons.IH [OF acc this] show ?case
    unfolding step by (simp add: len sl replicate_append_same)
qed

lemma poll_loop_first_nonempty:
  assumes "n < length as" and "\<forall>j < n. sleep_accepts e d (length (slept w) + j)"
    and "\<forall>j < n. quotes_at e (length (sent w) + j) (JArr [])"
    and "quotes_at e (length (sent w) + n) (JArr (q # qs))"
  shows "fst (poll_loop e qu qp k s m d as w) = Inr q
       \<and> length (sent (snd (poll_loop e qu qp k s m d as w))) = length (sent w) + n + 1
       \<and> slept (snd (poll_loop e qu qp k s m d as w)) = slept w @ replicate n d"
  using assms
proof (induction as arbitrary: w n)
  case Nil
  then show ?case by simp
next
  case (Cons a as)
  show ?case
  proof (cases n)
    case 0
    with Cons.prems(4) have "quotes_at e (length (sent w)) (JArr (q # qs))" by simp
    from poll_loop_quote_step [OF this] 0 show ?thesis by simp
  next
    case (Suc n')
    with Cons.prems have first: "quotes_at e (length (sent w)) (JArr [])"
      and d: "sleep_accepts e d (length (slept w))"
      by force+
    from poll_loop_empty_step [OF first d]
    obtain w' where step: "poll_loop e qu qp k s m d (a # as) w = poll_loop e qu qp k s m d as w'"
      and len: "length (sent w') = Suc (length (sent w))" and sl: "slept w' = slept w @ [d]"
      by blast
    have a: "n' < length as" using Cons.prems(1) Suc by simp
    have b: "\<forall>j < n'. sleep_accepts e d (length (slept w') + j)"
    proof (intro allI impI)
      fix j assume "j < n'"
      with Suc have "Suc j < n" by simp
      with Cons.prems(2) have "sleep_accepts e d (length (slept w) + Suc j)" by blast
      with sl show "sleep_accepts e d (length (slept w') + j)" by simp
    qed
    have c: "\<forall>j < n'. quotes_at e (length (sent w') + j) (JArr [])"
    proof (intro allI impI)
      fix j assume "j < n'"
      with Suc have "Suc j < n" by simp
      with Cons.prems(3) have "quotes_at e (length (sent w) + Suc j) (JArr [])" by blast
      with len show "quotes_at e (length (sent w') + j) (JArr [])" by simp
    qed
    have e: "quotes_at e (length (sent w') + n') (JArr (q # qs))"
      using Cons.prems(4) Suc len by simp
    from Cons.IH [OF a b c e] show ?thesis
      unfolding step by (simp add: len sl Suc replicate_append_same)
  qed
qed

text \<open>
  C1 (as amended).  \<open>poll_quotes\<close> never sends more than \<open>max_attempts\<close> quote requests,
  whatever its arguments and the server.  For every \<open>rfq_url\<close> that the URL parser
  accepts and every \<open>delay_seconds\<close> that \<^verbatim>\<open>time.sleep\<close> accepts at each of its calls: if
  attempt \<open>n + 1 \<le> max_attempts\<close> is the first whose result is a non-empty list (the earlier
  ones gave the empty list), the call returns element 0 of that list after exactly
  \<open>n + 1\<close> requests, with no sleep after the last one; and if all \<open>max_attempts\<close> attempts
  give the empty list, it fails with \<^verbatim>\<open>TimeoutError\<close> (the spec's PollTimeout) after
  exactly \<open>max_attempts\<close> requests.  A non-empty first attempt returns for every delay, as
  no sleep is called.  \<^verbatim>\<open>time.sleep\<close> accepts an int or a float that is not NaN, not
  negative, and whose deadline in nanoseconds fits a signed 64-bit integer; this includes
  every int and float from 0 to \<open>4e9\<close> seconds while the monotonic clock reads less than
  \<^verbatim>\<open>2^62\<close> ns.
\<close>

theorem poll_quotes_attempts:
  "length (sent (snd (poll_quotes e rfq_url api_key secret_key max_attempts delay_seconds w)))
     \<le> length (sent w) + nat max_attempts
   \<and> (urlparse e rfq_url = Inr parsed \<longrightarrow>
        (\<forall>n q qs.
           n < nat max_attempts
           \<and> (\<forall>j < n. sleep_accepts e delay_seconds (length (slept w) + j))
           \<and> (\<forall>j < n. quotes_at e (length (sent w) + j) (JArr []))
           \<and> quotes_at e (length (sent w) + n) (JArr (q # qs)) \<longrightarrow>
           fst (poll_quotes e rfq_url api_key secret_key max_attempts delay_seconds w) = Inr q
           \<and> length (sent (snd (poll_quotes e rfq_url api_key secret_key max_attempts delay_seconds w)))
               = length (sent w) + n + 1
           \<and> slept (snd (poll_quotes e rfq_url api_key secret_key max_attempts delay_seconds w))
               = slept w @ replicate n delay_seconds)
        \<and> ((\<forall>j < nat max_attempts. sleep_accepts e delay_seconds (length (slept w) + j))
            \<and> (\<forall>j < nat max_attempts. quotes_at e (length (sent w) + j) (JArr [])) \<longrightarrow>
            fst (poll_quotes e rfq_url api_key secret_key max_attempts delay_seconds w)
              = Inl TimeoutError
            \<and> length (sent (snd (poll_quotes e rfq_url api_key secret_key max_attempts delay_seconds w)))
                = length (sent w) + nat max_attempts))
   \<and> (0 \<le> time_monotonic e k \<and> time_monotonic e k < 2 ^ 62 \<longrightarrow>
        (\<forall>d. 0 \<le> d \<and> d \<le> 4000000000 \<longrightarrow> sleep_accepts e (PyFloat d) k)
        \<and> (\<forall>i. 0 \<le> i \<and> i \<le> 4000000000 \<longrightarrow> sleep_accepts e (PyInt i) k))
   \<and> (sleep_accepts e delay_seconds (length (slept w))
        \<longleftrightarrow> (\<exists>w'. sleep e delay_seconds w = Inr w'))"
proof -
  have len: "length [1..max_attempts] = nat max_attempts" by simp
  have bound: "length (sent (snd (poll_quotes e rfq_url api_key secret_key max_attempts delay_seconds w)))
     \<le> length (sent w) + nat max_attempts"
  proof (cases "urlparse e rfq_url")
    case (Inl err)
    then show ?thesis by (simp add: poll_quotes_def)
  next
    case (Inr p)
    then show ?thesis
      using poll_loop_sent_bound [of e _ _ api_key secret_key max_attempts delay_seconds
          "[1..max_attempts]" w]
      by (simp add: poll_quotes_def Let_def)
  qed
  have acc: "0 \<le> time_monotonic e k \<and> time_monotonic e k < 2 ^ 62 \<longrightarrow>
        (\<forall>d. 0 \<le> d \<and> d \<le> 4000000000 \<longrightarrow> sleep_accepts e (PyFloat d) k)
        \<and> (\<forall>i. 0 \<le> i \<and> i \<le> 4000000000 \<longrightarrow> sleep_accepts e (PyInt i) k)"
    using sleep_accepts_moderate [of e k] by blast
  note iff = sleep_accepts_iff [of e delay_seconds w]
  have rest: ?thesis if p: "urlparse e rfq_url = Inr parsed"
  proof -
    have unfold: "poll_quotes e rfq_url api_key secret_key max_attempts delay_seconds w
        = poll_loop e (url_scheme parsed @ ''://'' @ url_netloc parsed
                         @ rstrip (url_path parsed) ''/'' @ ''/quotes'')
            (rstrip (url_path parsed) ''/'' @ ''/quotes'') api_key secret_key max_attempts
            delay_seconds [1..max_attempts] w"
      by (simp add: poll_quotes_def p Let_def)
    show ?thesis
      using bound acc iff unfolding unfold
      using poll_loop_first_nonempty [where as = "[1..max_attempts]" and w = w and e = e
          and d = delay_seconds]
        poll_loop_all_empty [where as = "[1..max_attempts]" and w = w and e = e
          and d = delay_seconds]
      unfolding len by blast
  qed
  show ?thesis
  proof (cases "urlparse e rfq_url = Inr parsed")
    case True
    then show ?thesis by (rule rest)
  next
    case False
    with bound acc iff show ?thesis by simp
  qed
qed

lemmas poll_eval = quotes_at_def answers_def always_def example_env_def example_response_def
  no_quotes_def late_server_def fresh_world_def ok_def

lemma float_mul_examples:
  "float_mul 1 1000000000 = 1000000000"
  "float_mul (- 1) 1000000000 = - 1000000000"
  "float_mul 10000000000 1000000000 = 10000000000000000000"
  by (simp_all add: float_mul_def round_double_examples)

theorem poll_quotes_attempts_witness:
  "fst (poll_quotes (always no_quotes) ''https://x.test/rfq/123'' ''key'' ''secret'' 3 (PyFloat 1)
          fresh_world)
     = Inl TimeoutError
   \<and> length (sent (snd (poll_quotes (always no_quotes) ''https://x.test/rfq/123'' ''key'' ''secret''
                          3 (PyFloat 1) fresh_world))) = 3
   \<and> fst (poll_quotes (example_env slow_clock late_server) ''https://x.test/rfq/123''
            ''key'' ''secret'' 10 (PyFloat 1) fresh_world) = Inr (JObj [(''quoteId'', JStr ''q1'')])
   \<and> length (sent (snd (poll_quotes (example_env slow_clock late_server)
                          ''https://x.test/rfq/123'' ''key'' ''secret'' 10 (PyFloat 1) fresh_world))) = 2
   \<and> slept (snd (poll_quotes (example_env slow_clock late_server)
                          ''https://x.test/rfq/123'' ''key'' ''secret'' 10 (PyFloat 1) fresh_world))
     = [PyFloat 1]"
proof -
  have three: "j < 3 \<longleftrightarrow> j = 0 \<or> j = 1 \<or> j = 2" for j :: nat
    by arith
  have acc: "sleep_accepts (example_env clock server) (PyFloat 1) k" for clock server k
    using poll_quotes_attempts
      [where e = "example_env clock server" and k = k,
       THEN conjunct2, THEN conjunct2, THEN conjunct1]
    by (simp add: example_env_def)
  have a: "fst (poll_quotes (always no_quotes) ''https://x.test/rfq/123'' ''key'' ''secret'' 3
                  (PyFloat 1) fresh_world) = Inl TimeoutError
     \<and> length (sent (snd (poll_quotes (always no_quotes) ''https://x.test/rfq/123'' ''key''
                            ''secret'' 3 (PyFloat 1) fresh_world))) = 3"
    using poll_quotes_attempts
      [of "always no_quotes" "''https://x.test/rfq/123''" "''key''" "''secret''" 3 "PyFloat 1"
          fresh_world,
       THEN conjunct2, THEN conjunct1, rule_format, OF parse_example, THEN conjunct2]
      acc [of "\<lambda>k. 0" "\<lambda>k. Inr no_quotes"]
    by (simp add: poll_eval three)
  have b: "fst (poll_quotes (example_env slow_clock late_server) ''https://x.test/rfq/123''
            ''key'' ''secret'' 10 (PyFloat 1) fresh_world) = Inr (JObj [(''quoteId'', JStr ''q1'')])
   \<and> length (sent (snd (poll_quotes (example_env slow_clock late_server)
                          ''https://x.test/rfq/123'' ''key'' ''secret'' 10 (PyFloat 1) fresh_world))) = 2
   \<and> slept (snd (poll_quotes (example_env slow_clock late_server)
                          ''https://x.test/rfq/123'' ''key'' ''secret'' 10 (PyFloat 1) fresh_world))
     = [PyFloat 1]"
    using poll_quotes_attempts
      [of "example_env slow_clock late_server" "''https://x.test/rfq/123''" "''key''"
          "''secret''" 10 "PyFloat 1" fresh_world,
       THEN conjunct2, THEN conjunct1, rule_format, OF parse_example, THEN conjunct1, rule_format,
       of 1 "JObj [(''quoteId'', JStr ''q1'')]" "[]"]
      acc [of slow_clock late_server]
    by (simp add: poll_eval)
  from a b show ?thesis by simp
qed

text \<open>
  C1 as stated fails for a delay that \<^verbatim>\<open>time.sleep\<close> refuses.  With \<open>max_attempts = 3\<close>
  and a server that always answers with the empty list, the call ends after one request,
  not with PollTimeout after three: with \<^verbatim>\<open>ValueError\<close> for the delay \<open>-1\<close> and for NaN,
  and with \<^verbatim>\<open>OverflowError\<close> for the delay \<open>1e10\<close> and for infinity.
\<close>

theorem poll_quotes_refused_delay_counterexample:
  "quotes_at (always no_quotes) 0 (JArr []) \<and> quotes_at (always no_quotes) 1 (JArr [])
   \<and> quotes_at (always no_quotes) 2 (JArr [])
   \<and> map (\<lambda>d. (fst (poll_quotes (always no_quotes) ''https://x.test/rfq/123'' ''key'' ''secret''
                         3 d fresh_world),
                  length (sent (snd (poll_quotes (always no_quotes) ''https://x.test/rfq/123''
                                       ''key'' ''secret'' 3 d fresh_world)))))
       [PyFloat (- 1), PyNaN, PyFloat 10000000000, PyInf]
     = [(Inl ValueError, 1), (Inl ValueError, 1), (Inl OverflowError, 1), (Inl OverflowError, 1)]"
proof -
  have u: "[1..3] = 1 # [2..3]"
    by (simp add: upto_rec1)
  show ?thesis
    unfolding poll_quotes_def parse_example u
    by (simp add: poll_eval poll_step sleep_def float_mul_examples round_away_def)
qed

subsection \<open>Derived paths\<close>

text \<open>Appending a slash, stage by stage of the URL parser.\<close>

lemma dropWhile_snoc_stop:
  assumes "\<not> P c"
  shows "dropWhile P (xs @ [c]) = dropWhile P xs @ [c]"
proof (cases "\<forall>x \<in> set xs. P x")
  case True
  then have "dropWhile P xs = []" by simp
  moreover from True have "dropWhile P (xs @ [c]) = dropWhile P [c]"
    by (intro dropWhile_append2) simp
  ultimately show ?thesis using assms by simp
next
  case False
  then obtain x where "x \<in> set xs" "\<not> P x" by blast
  then show ?thesis by (rule dropWhile_append1)
qed

lemma takeWhile_snoc_stop:
  assumes "\<not> P c"
  shows "takeWhile P (xs @ [c]) = takeWhile P xs"
proof (cases "\<forall>x \<in> set xs. P x")
  case True
  then have tw: "takeWhile P xs = xs" by simp
  show ?thesis by (simp add: takeWhile_append True tw assms)
next
  case False
  then have "(\<forall>x \<in> set xs. P x) = False" by simp
  then show ?thesis by (simp only: takeWhile_append if_False simp_thms)
qed

lemma takeWhile_snoc_cases:
  "takeWhile P (xs @ [c]) = takeWhile P xs \<or> takeWhile P (xs @ [c]) = takeWhile P xs @ [c]"
proof (cases "\<forall>x \<in> set xs. P x")
  case True
  then have tw: "takeWhile P xs = xs" by simp
  show ?thesis by (simp add: takeWhile_append True tw)
next
  case False
  then have "(\<forall>x \<in> set xs. P x) = False" by simp
  then show ?thesis by (simp only: takeWhile_append if_False simp_thms)
qed

lemma takeWhile_short:
  assumes "c \<in> set xs"
  shows "Suc (length (takeWhile (\<lambda>x. x \<noteq> c) xs)) \<le> length xs"
proof -
  from assms have "dropWhile (\<lambda>x. x \<noteq> c) xs \<noteq> []" by (auto simp: dropWhile_eq_Nil_conv)
  moreover have "length xs = length (takeWhile (\<lambda>x. x \<noteq> c) xs) + length (dropWhile (\<lambda>x. x \<noteq> c) xs)"
    by (metis length_append takeWhile_dropWhile_id)
  ultimately show ?thesis by (cases "dropWhile (\<lambda>x. x \<noteq> c) xs") auto
qed

lemma split_scheme_slash:
  "split_scheme (v @ ''/'') = (fst (split_scheme v), snd (split_scheme v) @ ''/'')"
proof (cases "CHR '':'' \<in> set v")
  case True
  then have tw: "takeWhile (\<lambda>x. x \<noteq> CHR '':'') (v @ ''/'') = takeWhile (\<lambda>x. x \<noteq> CHR '':'') v"
    by (auto simp: takeWhile_append)
  from True have ne: "v \<noteq> []" by auto
  then have hd: "hd (v @ ''/'') = hd v" by simp
  have dr: "drop (Suc (length (takeWhile (\<lambda>x. x \<noteq> CHR '':'') v))) (v @ ''/'')
              = drop (Suc (length (takeWhile (\<lambda>x. x \<noteq> CHR '':'') v))) v @ ''/''"
    using takeWhile_short [OF True] by simp
  show ?thesis
    unfolding split_scheme_def tw hd Let_def using True dr by simp
next
  case False
  then show ?thesis by (simp add: split_scheme_def Let_def)
qed

lemma splitnetloc_slash:
  "fst (splitnetloc (v @ ''/'')) = fst (splitnetloc v)
   \<and> (snd (splitnetloc (v @ ''/'')) = snd (splitnetloc v) @ ''/''
      \<or> (snd (splitnetloc v) = ''/'' \<and> snd (splitnetloc (v @ ''/'')) = []))"
proof (cases "take 2 v = ''//''")
  case True
  then obtain d where v: "v = CHR ''/'' # CHR ''/'' # d"
    by (cases v; cases "tl v") auto
  have stop: "\<not> (\<lambda>x. x \<notin> set ''/?#'') (CHR ''/'')" by simp
  show ?thesis
    unfolding v splitnetloc_def
    using takeWhile_snoc_stop [where P = "\<lambda>x. x \<notin> set ''/?#''" and c = "CHR ''/''" and xs = d, OF stop]
      dropWhile_snoc_stop [where P = "\<lambda>x. x \<notin> set ''/?#''" and c = "CHR ''/''" and xs = d, OF stop]
    by simp
next
  case False
  show ?thesis
  proof (cases "v = ''/''")
    case True
    then show ?thesis by (simp add: splitnetloc_def)
  next
    case nv: False
    have "take 2 (v @ ''/'') \<noteq> ''//''"
    proof (cases v)
      case Nil
      then show ?thesis by simp
    next
      case (Cons a w)
      show ?thesis
      proof (cases w)
        case Nil
        with Cons nv show ?thesis by auto
      next
        case (Cons b w')
        with \<open>v = a # w\<close> False show ?thesis by auto
      qed
    qed
    with False show ?thesis by (simp add: splitnetloc_def)
  qed
qed

lemma fst_split_first: "fst (split_first c s) = takeWhile (\<lambda>x. x \<noteq> c) s"
  by (simp add: split_first_def)

lemma takeWhile_absent: "c \<notin> set s \<Longrightarrow> takeWhile (\<lambda>x. x \<noteq> c) s = s"
  by (induction s) auto

text \<open>The result of \<^verbatim>\<open>urlsplit\<close>, component by component.\<close>

lemma urlsplit_view:
  "urlsplit e u =
     (let v = filter (\<lambda>c. (of_char c :: nat) \<notin> {9, 10, 13})
                (dropWhile (\<lambda>c. (of_char c :: nat) \<le> 32) u);
          u3 = snd (splitnetloc (snd (split_scheme v)));
          u4 = takeWhile (\<lambda>x. x \<noteq> CHR ''#'') u3
      in if netloc_ok e (fst (splitnetloc (snd (split_scheme v))))
         then Inr \<lparr>sr_scheme = fst (split_scheme v),
                   sr_netloc = fst (splitnetloc (snd (split_scheme v))),
                   sr_path = takeWhile (\<lambda>x. x \<noteq> CHR ''?'') u4,
                   sr_query = (if CHR ''?'' \<in> set u4 then snd (split_first CHR ''?'' u4) else ''''),
                   sr_fragment = (if CHR ''#'' \<in> set u3 then snd (split_first CHR ''#'' u3) else '''')\<rparr>
         else Inl ValueError)"
proof -
  define v where "v = filter (\<lambda>c. (of_char c :: nat) \<notin> {9, 10, 13})
                (dropWhile (\<lambda>c. (of_char c :: nat) \<le> 32) u)"
  define u3 where "u3 = snd (splitnetloc (snd (split_scheme v)))"
  define u4 where "u4 = takeWhile (\<lambda>x. x \<noteq> CHR ''#'') u3"
  define u5 where "u5 = takeWhile (\<lambda>x. x \<noteq> CHR ''?'') u4"
  have f4: "(if CHR ''#'' \<in> set u3 then split_first CHR ''#'' u3 else (u3, ''''))
              = (u4, if CHR ''#'' \<in> set u3 then snd (split_first CHR ''#'' u3) else '''')"
    unfolding u4_def by (simp add: split_first_def takeWhile_absent)
  have f5: "(if CHR ''?'' \<in> set u4 then split_first CHR ''?'' u4 else (u4, ''''))
              = (u5, if CHR ''?'' \<in> set u4 then snd (split_first CHR ''?'' u4) else '''')"
    unfolding u5_def by (simp add: split_first_def takeWhile_absent)
  have sp: "split_scheme v = (fst (split_scheme v), snd (split_scheme v))" by simp
  have sn: "splitnetloc (snd (split_scheme v))
              = (fst (splitnetloc (snd (split_scheme v))), u3)"
    unfolding u3_def by simp
  have "urlsplit e u =
      (if netloc_ok e (fst (splitnetloc (snd (split_scheme v))))
         then Inr \<lparr>sr_scheme = fst (split_scheme v),
                   sr_netloc = fst (splitnetloc (snd (split_scheme v))),
                   sr_path = u5,
                   sr_query = (if CHR ''?'' \<in> set u4 then snd (split_first CHR ''?'' u4) else ''''),
                   sr_fragment = (if CHR ''#'' \<in> set u3 then snd (split_first CHR ''#'' u3) else '''')\<rparr>
         else Inl ValueError)"
    unfolding urlsplit_def Let_def v_def [symmetric]
    by (subst sp, simp only: prod.case, subst sn, simp only: prod.case f4 f5)
  then show ?thesis
    unfolding Let_def v_def u3_def u4_def u5_def .
qed

lemma cut_slash:
  "takeWhile (\<lambda>x. x \<noteq> CHR ''?'') (takeWhile (\<lambda>x. x \<noteq> CHR ''#'') (x @ ''/''))
     = takeWhile (\<lambda>x. x \<noteq> CHR ''?'') (takeWhile (\<lambda>x. x \<noteq> CHR ''#'') x)
   \<or> takeWhile (\<lambda>x. x \<noteq> CHR ''?'') (takeWhile (\<lambda>x. x \<noteq> CHR ''#'') (x @ ''/''))
     = takeWhile (\<lambda>x. x \<noteq> CHR ''?'') (takeWhile (\<lambda>x. x \<noteq> CHR ''#'') x) @ ''/''"
  using takeWhile_snoc_cases [of "\<lambda>x. x \<noteq> CHR ''#''" x "CHR ''/''"]
    takeWhile_snoc_cases [of "\<lambda>x. x \<noteq> CHR ''?''" "takeWhile (\<lambda>x. x \<noteq> CHR ''#'') x" "CHR ''/''"]
  by auto

lemma pre_slash:
  "filter (\<lambda>c. (of_char c :: nat) \<notin> {9, 10, 13}) (dropWhile (\<lambda>c. (of_char c :: nat) \<le> 32) (u @ ''/''))
     = filter (\<lambda>c. (of_char c :: nat) \<notin> {9, 10, 13}) (dropWhile (\<lambda>c. (of_char c :: nat) \<le> 32) u)
       @ ''/''"
proof -
  have "\<not> (\<lambda>c. (of_char c :: nat) \<le> 32) (CHR ''/'')" by simp
  from dropWhile_snoc_stop [where P = "\<lambda>c. (of_char c :: nat) \<le> 32" and c = "CHR ''/''" and xs = u, OF this]
  show ?thesis by simp
qed

text \<open>
  A slash appended to a URL leaves scheme and host as they are, and is appended to the
  path (or to the query or the fragment, when there is one); one case apart, the URL
  \<^verbatim>\<open>scheme:/\<close> whose path \<^verbatim>\<open>/\<close> becomes, in \<^verbatim>\<open>scheme://\<close>, the mark of an empty host.
\<close>

lemma urlsplit_trailing_slash:
  "(\<exists>err. urlsplit e u = Inl err \<and> urlsplit e (u @ ''/'') = Inl err)
   \<or> (\<exists>s s'. urlsplit e u = Inr s \<and> urlsplit e (u @ ''/'') = Inr s'
         \<and> sr_scheme s' = sr_scheme s \<and> sr_netloc s' = sr_netloc s
         \<and> (sr_path s' = sr_path s \<or> sr_path s' = sr_path s @ ''/''
            \<or> (sr_path s = ''/'' \<and> sr_path s' = [])))"
proof -
  define v where "v = filter (\<lambda>c. (of_char c :: nat) \<notin> {9, 10, 13})
                (dropWhile (\<lambda>c. (of_char c :: nat) \<le> 32) u)"
  define u2 where "u2 = snd (split_scheme v)"
  define u3 where "u3 = snd (splitnetloc u2)"
  define u3' where "u3' = snd (splitnetloc (u2 @ ''/''))"
  define cut where "cut x = takeWhile (\<lambda>x. x \<noteq> CHR ''?'') (takeWhile (\<lambda>x. x \<noteq> CHR ''#'') x)"
    for x :: string
  have nl: "fst (splitnetloc (u2 @ ''/'')) = fst (splitnetloc u2)"
    using splitnetloc_slash [of u2] by simp
  have paths: "cut u3' = cut u3 \<or> cut u3' = cut u3 @ ''/'' \<or> (cut u3 = ''/'' \<and> cut u3' = [])"
  proof -
    from splitnetloc_slash [of u2]
    consider "u3' = u3 @ ''/''" | "u3 = ''/''" "u3' = []"
      unfolding u3_def u3'_def by blast
    then show ?thesis
    proof cases
      case 1
      show ?thesis
        unfolding cut_def 1 using cut_slash [of u3] by blast
    next
      case 2
      then show ?thesis by (simp add: cut_def)
    qed
  qed
  have a: "urlsplit e u =
      (if netloc_ok e (fst (splitnetloc u2))
       then Inr \<lparr>sr_scheme = fst (split_scheme v), sr_netloc = fst (splitnetloc u2),
                 sr_path = cut u3,
                 sr_query = (if CHR ''?'' \<in> set (takeWhile (\<lambda>x. x \<noteq> CHR ''#'') u3)
                              then snd (split_first CHR ''?'' (takeWhile (\<lambda>x. x \<noteq> CHR ''#'') u3))
                              else ''''),
                 sr_fragment = (if CHR ''#'' \<in> set u3 then snd (split_first CHR ''#'' u3) else '''')\<rparr>
       else Inl ValueError)"
    unfolding urlsplit_view Let_def cut_def u3_def u2_def v_def ..
  have b: "urlsplit e (u @ ''/'') =
      (if netloc_ok e (fst (splitnetloc u2))
       then Inr \<lparr>sr_scheme = fst (split_scheme v), sr_netloc = fst (splitnetloc u2),
                 sr_path = cut u3',
                 sr_query = (if CHR ''?'' \<in> set (takeWhile (\<lambda>x. x \<noteq> CHR ''#'') u3')
                              then snd (split_first CHR ''?'' (takeWhile (\<lambda>x. x \<noteq> CHR ''#'') u3'))
                              else ''''),
                 sr_fragment = (if CHR ''#'' \<in> set u3' then snd (split_first CHR ''#'' u3') else '''')\<rparr>
       else Inl ValueError)"
    unfolding urlsplit_view Let_def pre_slash split_scheme_slash
    unfolding v_def [symmetric] fst_conv snd_conv u2_def [symmetric] nl
      u3'_def [symmetric] cut_def ..
  show ?thesis
  proof (cases "netloc_ok e (fst (splitnetloc u2))")
    case True
    then show ?thesis unfolding a b using paths by simp
  next
    case False
    then show ?thesis unfolding a b by simp
  qed
qed

text \<open>Without a \<^verbatim>\<open>;\<close> in the last segment, \<^verbatim>\<open>urlparse\<close> leaves the path as it is.\<close>

lemma last_segment_slash [simp]: "last_segment (p @ ''/'') = []" "last_segment [] = []"
  by (simp_all add: last_segment_def)

lemma splitparams_no_params:
  assumes "CHR '';'' \<notin> set (last_segment p)"
  shows "fst (splitparams p) = p"
proof (cases "CHR ''/'' \<in> set p")
  case True
  with assms show ?thesis by (simp add: splitparams_def last_segment_def Let_def)
next
  case False
  then have tw: "takeWhile (\<lambda>x. x \<noteq> CHR ''/'') (rev p) = rev p"
    by (intro takeWhile_absent) simp
  have "last_segment p = p" unfolding last_segment_def tw by simp
  with assms have "CHR '';'' \<notin> set p" by simp
  with False show ?thesis by (simp add: splitparams_def split_first_def takeWhile_absent)
qed

lemma urlparse_no_params:
  assumes "urlsplit e u = Inr s" and "CHR '';'' \<notin> set (last_segment (sr_path s))"
  shows "\<exists>p. urlparse e u = Inr p \<and> url_scheme p = sr_scheme s \<and> url_netloc p = sr_netloc s
             \<and> url_path p = sr_path s"
  using splitparams_no_params [OF assms(2)]
  by (auto simp: urlparse_def assms(1) Let_def split: prod.splits)

lemma urlparse_trailing_slash:
  assumes "no_path_params e u"
  shows "(\<exists>err. urlparse e u = Inl err \<and> urlparse e (u @ ''/'') = Inl err)
       \<or> (\<exists>p p'. urlparse e u = Inr p \<and> urlparse e (u @ ''/'') = Inr p'
             \<and> url_scheme p' = url_scheme p \<and> url_netloc p' = url_netloc p
             \<and> rstrip (url_path p') ''/'' = rstrip (url_path p) ''/'')"
proof -
  from urlsplit_trailing_slash [of e u]
  consider err where "urlsplit e u = Inl err" "urlsplit e (u @ ''/'') = Inl err"
    | s s' where "urlsplit e u = Inr s" "urlsplit e (u @ ''/'') = Inr s'"
        "sr_scheme s' = sr_scheme s" "sr_netloc s' = sr_netloc s"
        "sr_path s' = sr_path s \<or> sr_path s' = sr_path s @ ''/''
            \<or> (sr_path s = ''/'' \<and> sr_path s' = [])"
    by blast
  then show ?thesis
  proof cases
    case 1
    then show ?thesis by (simp add: urlparse_def)
  next
    case 2
    from assms 2(1) have np: "CHR '';'' \<notin> set (last_segment (sr_path s))"
      by (simp add: no_path_params_def)
    with 2(5) have np': "CHR '';'' \<notin> set (last_segment (sr_path s'))"
      by auto
    from urlparse_no_params [OF 2(1) np] obtain p where
      p: "urlparse e u = Inr p" "url_scheme p = sr_scheme s" "url_netloc p = sr_netloc s"
         "url_path p = sr_path s" by blast
    from urlparse_no_params [OF 2(2) np'] obtain p' where
      p': "urlparse e (u @ ''/'') = Inr p'" "url_scheme p' = sr_scheme s'"
         "url_netloc p' = sr_netloc s'" "url_path p' = sr_path s'" by blast
    have "rstrip (sr_path s') ''/'' = rstrip (sr_path s) ''/''"
      using 2(5) by (auto simp: rstrip_append_slash) (simp add: rstrip_def)
    with p p' 2(3,4) show ?thesis by simp
  qed
qed

text \<open>The requests that polling and executing send.\<close>

lemma make_auth_headers_signed:
  "req_headers r = fst (make_auth_headers e path api_key secret_key w)
     \<Longrightarrow> signed_for e path api_key secret_key r"
  by (simp add: signed_for_def make_auth_headers_def Let_def)

lemma poll_loop_step_cases:
  "sent (snd (poll_loop e qu qp k s m d (a # as) w))
     = sent w @ [\<lparr>req_method = ''GET'', req_url = qu, req_json = None,
                  req_headers = fst (make_auth_headers e qp k s w), req_timeout = 10\<rparr>]
   \<or> (\<exists>w'. poll_loop e qu qp k s m d (a # as) w = poll_loop e qu qp k s m d as w'
          \<and> sent w' = sent w @ [\<lparr>req_method = ''GET'', req_url = qu, req_json = None,
                  req_headers = fst (make_auth_headers e qp k s w), req_timeout = 10\<rparr>])"
  by (auto simp: poll_step split: sum.splits option.splits dest!: sleep_returns)

lemma poll_loop_requests:
  "\<exists>rs. sent (snd (poll_loop e qu qp k s m d as w)) = sent w @ rs
        \<and> (\<forall>r \<in> set rs. req_method r = ''GET'' \<and> req_url r = qu \<and> signed_for e qp k s r)"
proof (induction as arbitrary: w)
  case Nil
  show ?case by simp
next
  case (Cons a as)
  let ?r = "\<lparr>req_method = ''GET'', req_url = qu, req_json = None,
              req_headers = fst (make_auth_headers e qp k s w), req_timeout = 10\<rparr>"
  have r: "req_method ?r = ''GET'' \<and> req_url ?r = qu \<and> signed_for e qp k s ?r"
    by (simp add: make_auth_headers_signed)
  from poll_loop_step_cases [of e qu qp k s m d a as w]
  show ?case
  proof
    assume "sent (snd (poll_loop e qu qp k s m d (a # as) w)) = sent w @ [?r]"
    with r show ?thesis by (intro exI [of _ "[?r]"]) simp
  next
    assume "\<exists>w'. poll_loop e qu qp k s m d (a # as) w = poll_loop e qu qp k s m d as w'
              \<and> sent w' = sent w @ [?r]"
    then obtain w' where step: "poll_loop e qu qp k s m d (a # as) w = poll_loop e qu qp k s m d as w'"
      and w': "sent w' = sent w @ [?r]" by blast
    from Cons.IH [of w'] obtain rs where
      rs: "sent (snd (poll_loop e qu qp k s m d as w')) = sent w' @ rs"
        "\<forall>r \<in> set rs. req_method r = ''GET'' \<and> req_url r = qu \<and> signed_for e qp k s r"
      by blast
    show ?thesis
      unfolding step using rs r w' by (intro exI [of _ "?r # rs"]) simp
  qed
qed

lemma execute_quote_request:
  assumes "urlparse e rfq_url = Inr parsed"
  shows "\<exists>r. sent (snd (execute_quote e rfq_url quote_id k s w)) = sent w @ [r]
        \<and> req_method r = ''POST''
        \<and> req_url r = url_scheme parsed @ ''://'' @ url_netloc parsed
                        @ rstrip (url_path parsed) ''/'' @ ''/execute''
        \<and> signed_for e (rstrip (url_path parsed) ''/'' @ ''/execute'') k s r"
proof -
  let ?p = "rstrip (url_path parsed) ''/'' @ ''/execute''"
  let ?w0 = "print [PFmt [PStr ''sending payload '', PJson (JObj [(''winningQuoteId'', JStr quote_id)]),
                          PStr '' to '', PStr ?p]] w"
  let ?r = "\<lparr>req_method = ''POST'',
              req_url = url_scheme parsed @ ''://'' @ url_netloc parsed @ ?p,
              req_json = Some (JObj [(''winningQuoteId'', JStr quote_id)]),
              req_headers = fst (make_auth_headers e ?p k s ?w0), req_timeout = 10\<rparr>"
  have "sent (snd (execute_quote e rfq_url quote_id k s w)) = sent w @ [?r]"
    unfolding execute_quote_def assms
    by (simp add: poll_step split: sum.splits)
  moreover have "signed_for e ?p k s ?r"
    by (simp add: make_auth_headers_signed)
  ultimately show ?thesis
    by (intro exI [of _ ?r]) simp
qed

text \<open>
  C3 (as amended).  Take an \<open>rfq_url\<close> whose path component has no \<^verbatim>\<open>;\<close> in its last
  segment (no path parameters).  Then \<open>rfq_url @ ''/''\<close> and \<open>rfq_url\<close> make \<open>poll_quotes\<close>
  and \<open>execute_quote\<close> behave identically: the derivation is invariant under a trailing
  slash.  And when the URL parser accepts \<open>rfq_url\<close>, every request of \<open>poll_quotes\<close> and
  the request of \<open>execute_quote\<close> go to the path made of the path component of \<open>rfq_url\<close>,
  stripped of its trailing slashes, followed by \<^verbatim>\<open>/quotes\<close> or \<^verbatim>\<open>/execute\<close>; the signature
  of each request is computed over that derived path, which is never the path of the RFQ
  itself.
\<close>

theorem derived_path_requests:
  assumes "no_path_params e rfq_url"
  shows "poll_quotes e (rfq_url @ ''/'') api_key secret_key max_attempts delay_seconds w
          = poll_quotes e rfq_url api_key secret_key max_attempts delay_seconds w
       \<and> execute_quote e (rfq_url @ ''/'') quote_id api_key secret_key w
          = execute_quote e rfq_url quote_id api_key secret_key w
       \<and> (urlsplit e rfq_url = Inr s \<longrightarrow>
            (\<exists>rs. sent (snd (poll_quotes e rfq_url api_key secret_key max_attempts delay_seconds w))
                     = sent w @ rs
                  \<and> (\<forall>r \<in> set rs.
                        req_url r = sr_scheme s @ ''://'' @ sr_netloc s
                                      @ rstrip (sr_path s) ''/'' @ ''/quotes''
                        \<and> signed_for e (rstrip (sr_path s) ''/'' @ ''/quotes'') api_key secret_key r))
            \<and> (\<exists>r. sent (snd (execute_quote e rfq_url quote_id api_key secret_key w)) = sent w @ [r]
                  \<and> req_url r = sr_scheme s @ ''://'' @ sr_netloc s
                                  @ rstrip (sr_path s) ''/'' @ ''/execute''
                  \<and> signed_for e (rstrip (sr_path s) ''/'' @ ''/execute'') api_key secret_key r)
            \<and> rstrip (sr_path s) ''/'' @ ''/quotes'' \<noteq> sr_path s
            \<and> rstrip (sr_path s) ''/'' @ ''/execute'' \<noteq> sr_path s)"
proof -
  have slash: "poll_quotes e (rfq_url @ ''/'') api_key secret_key max_attempts delay_seconds w
          = poll_quotes e rfq_url api_key secret_key max_attempts delay_seconds w
        \<and> execute_quote e (rfq_url @ ''/'') quote_id api_key secret_key w
          = execute_quote e rfq_url quote_id api_key secret_key w"
    using urlparse_trailing_slash [OF assms]
    by (auto simp: poll_quotes_def execute_quote_def Let_def)
  have differs: "rstrip (sr_path s) ''/'' @ ''/quotes'' \<noteq> sr_path s"
    "rstrip (sr_path s) ''/'' @ ''/execute'' \<noteq> sr_path s"
    by (rule derived_path_differs; simp)+
  have derived: "(\<exists>rs. sent (snd (poll_quotes e rfq_url api_key secret_key max_attempts delay_seconds w))
                     = sent w @ rs
                  \<and> (\<forall>r \<in> set rs.
                        req_url r = sr_scheme s @ ''://'' @ sr_netloc s
                                      @ rstrip (sr_path s) ''/'' @ ''/quotes''
                        \<and> signed_for e (rstrip (sr_path s) ''/'' @ ''/quotes'') api_key secret_key r))
            \<and> (\<exists>r. sent (snd (execute_quote e rfq_url quote_id api_key secret_key w)) = sent w @ [r]
                  \<and> req_url r = sr_scheme s @ ''://'' @ sr_netloc s
                                  @ rstrip (sr_path s) ''/'' @ ''/execute''
                  \<and> signed_for e (rstrip (sr_path s) ''/'' @ ''/execute'') api_key secret_key r)"
    if s: "urlsplit e rfq_url = Inr s"
  proof -
    from assms s have "CHR '';'' \<notin> set (last_segment (sr_path s))"
      by (simp add: no_path_params_def)
    from urlparse_no_params [OF s this] obtain p where
      p: "urlparse e rfq_url = Inr p" "url_scheme p = sr_scheme s" "url_netloc p = sr_netloc s"
         "url_path p = sr_path s" by blast
    have "\<exists>rs. sent (snd (poll_quotes e rfq_url api_key secret_key max_attempts delay_seconds w))
               = sent w @ rs
            \<and> (\<forall>r \<in> set rs.
                  req_url r = url_scheme p @ ''://'' @ url_netloc p
                                @ rstrip (url_path p) ''/'' @ ''/quotes''
                  \<and> signed_for e (rstrip (url_path p) ''/'' @ ''/quotes'') api_key secret_key r)"
      using poll_loop_requests
        [of e "url_scheme p @ ''://'' @ url_netloc p @ rstrip (url_path p) ''/'' @ ''/quotes''"
            "rstrip (url_path p) ''/'' @ ''/quotes''" api_key secret_key max_attempts
            delay_seconds "[1..max_attempts]" w]
      unfolding poll_quotes_def p(1) by (simp add: Let_def) blast
    with execute_quote_request [OF p(1), of quote_id api_key secret_key w]
    show ?thesis unfolding p(2,3,4) by blast
  qed
  show ?thesis
    using slash differs derived by blast
qed

lemma split_example:
  "urlsplit e ''https://x.test/rfq/123''
     = Inr \<lparr>sr_scheme = ''https'', sr_netloc = ''x.test'', sr_path = ''/rfq/123'',
            sr_query = '''', sr_fragment = ''''\<rparr>"
  "urlsplit e ''https://x.test/rfq/123/''
     = Inr \<lparr>sr_scheme = ''https'', sr_netloc = ''x.test'', sr_path = ''/rfq/123/'',
            sr_query = '''', sr_fragment = ''''\<rparr>"
  "urlsplit e ''https://x.test/rfq;v=1/123?a=1;b=2''
     = Inr \<lparr>sr_scheme = ''https'', sr_netloc = ''x.test'', sr_path = ''/rfq;v=1/123'',
            sr_query = ''a=1;b=2'', sr_fragment = ''''\<rparr>"
  by (simp_all add: url_eval)

theorem derived_path_requests_witness:
  "execute_quote (always no_quotes) ''https://x.test/rfq/123/'' ''q1'' ''key'' ''secret'' fresh_world
     = execute_quote (always no_quotes) ''https://x.test/rfq/123'' ''q1'' ''key'' ''secret'' fresh_world
   \<and> poll_quotes (always no_quotes) ''https://x.test/rfq/123/'' ''key'' ''secret'' 3 (PyFloat 1)
       fresh_world
     = poll_quotes (always no_quotes) ''https://x.test/rfq/123'' ''key'' ''secret'' 3 (PyFloat 1)
         fresh_world
   \<and> map req_url (sent (snd (execute_quote (always no_quotes) ''https://x.test/rfq/123/'' ''q1''
                                 ''key'' ''secret'' fresh_world)))
     = [''https://x.test/rfq/123/execute'']
   \<and> list_all (\<lambda>r. req_url r = ''https://x.test/rfq/123/quotes''
                     \<and> signed_for (always no_quotes) ''/rfq/123/quotes'' ''key'' ''secret'' r)
       (sent (snd (poll_quotes (always no_quotes) ''https://x.test/rfq/123/'' ''key'' ''secret'' 3
                     (PyFloat 1) fresh_world)))
   \<and> map req_url (sent (snd (execute_quote (always no_quotes)
                                 ''https://x.test/rfq;v=1/123?a=1;b=2/'' ''q1''
                                 ''key'' ''secret'' fresh_world)))
     = [''https://x.test/rfq;v=1/123/execute'']"
proof -
  have np: "no_path_params (always no_quotes) ''https://x.test/rfq/123''"
    "no_path_params (always no_quotes) ''https://x.test/rfq/123/''"
    "no_path_params (always no_quotes) ''https://x.test/rfq;v=1/123?a=1;b=2''"
    by (simp_all add: no_path_params_def split_example last_segment_def)
  have rs: "rstrip ''/rfq/123/'' ''/'' = ''/rfq/123''" "rstrip ''/rfq;v=1/123'' ''/'' = ''/rfq;v=1/123''"
    by (simp_all add: rstrip_def)
  have fw: "sent fresh_world = []" by (simp add: fresh_world_def)
  note inst = derived_path_requests
      [OF np(2), of "''key''" "''secret''" 3 "PyFloat 1" fresh_world "''q1''"]
  note inst0 = derived_path_requests
      [OF np(1), of "''key''" "''secret''" 3 "PyFloat 1" fresh_world "''q1''"]
  note inst1 = derived_path_requests
      [OF np(3), of "''key''" "''secret''" 3 "PyFloat 1" fresh_world "''q1''"]
  from inst0
  have a: "poll_quotes (always no_quotes) ''https://x.test/rfq/123/'' ''key'' ''secret'' 3 (PyFloat 1)
              fresh_world
            = poll_quotes (always no_quotes) ''https://x.test/rfq/123'' ''key'' ''secret'' 3 (PyFloat 1)
                fresh_world"
    and b: "execute_quote (always no_quotes) ''https://x.test/rfq/123/'' ''q1'' ''key'' ''secret'' fresh_world
            = execute_quote (always no_quotes) ''https://x.test/rfq/123'' ''q1'' ''key'' ''secret'' fresh_world"
    by simp_all
  from inst [THEN conjunct2, THEN conjunct2, rule_format, OF split_example(2)]
  have c: "map req_url (sent (snd (execute_quote (always no_quotes) ''https://x.test/rfq/123/'' ''q1''
                                 ''key'' ''secret'' fresh_world)))
     = [''https://x.test/rfq/123/execute'']"
    and d: "list_all (\<lambda>r. req_url r = ''https://x.test/rfq/123/quotes''
                     \<and> signed_for (always no_quotes) ''/rfq/123/quotes'' ''key'' ''secret'' r)
       (sent (snd (poll_quotes (always no_quotes) ''https://x.test/rfq/123/'' ''key'' ''secret'' 3
                     (PyFloat 1) fresh_world)))"
    by (auto simp: rs fw list_all_iff)
  from inst1 [THEN conjunct2, THEN conjunct2, rule_format, OF split_example(3)]
  have "map req_url (sent (snd (execute_quote (always no_quotes)
                                 ''https://x.test/rfq;v=1/123?a=1;b=2'' ''q1''
                                 ''key'' ''secret'' fresh_world)))
     = [''https://x.test/rfq;v=1/123/execute'']"
    by (auto simp: rs fw)
  with inst1 [THEN conjunct2, THEN conjunct1]
  have e: "map req_url (sent (snd (execute_quote (always no_quotes)
                                 ''https://x.test/rfq;v=1/123?a=1;b=2/'' ''q1''
                                 ''key'' ''secret'' fresh_world)))
     = [''https://x.test/rfq;v=1/123/execute'']"
    by simp
  from a b c d e show ?thesis by simp
qed

text \<open>
  C3 as stated fails on a URL whose last path segment has parameters: \<^verbatim>\<open>urlparse\<close>
  splits \<^verbatim>\<open>;v=1\<close> off the path of \<^verbatim>\<open>.../rfq/123;v=1\<close>, so that the request goes to
  \<^verbatim>\<open>/rfq/123/execute\<close>; but with a trailing slash the last segment is empty and \<^verbatim>\<open>;v=1\<close>
  stays in the path, so the two derived paths differ.
\<close>

theorem path_params_counterexample:
  "map req_url (sent (snd (execute_quote (always no_quotes) ''https://x.test/rfq/123;v=1'' ''q1''
                             ''key'' ''secret'' fresh_world)))
     = [''https://x.test/rfq/123/execute'']
   \<and> map req_url (sent (snd (execute_quote (always no_quotes) ''https://x.test/rfq/123;v=1/'' ''q1''
                             ''key'' ''secret'' fresh_world)))
     = [''https://x.test/rfq/123;v=1/execute'']"
  unfolding execute_quote_def parse_example_params parse_example_params_slash
  by (simp add: poll_step poll_eval rstrip_def)

end
